theory Spec2Isabelle
  imports Main "HOL-Library.Word" "HOL-Library.List_Lexorder" "HOL-Library.Multiset"
begin

unbundle bit_operations_syntax

section \<open>The password manager of \<open>PodjPasswordManager/password_manager.py\<close>\<close>

subsection \<open>Values\<close>

text \<open>
  A Python \<open>str\<close> is a sequence of code points and is modelled as a list of naturals;
  \<open>bytes\<close> is a list of 8-bit words. String literals of the source that are ASCII are
  written with \<open>str_of\<close>. The order on \<open>str\<close> is the lexicographic order of code points
  (\<open>HOL-Library.List_Lexorder\<close>), which is the order of SQLite's BINARY collation on
  UTF-8 text.
\<close>

type_synonym str = "nat list"
type_synonym bytes = "8 word list"

definition str_of :: "string \<Rightarrow> str" where
  "str_of s = map of_char s"

text \<open>The exceptions that the modelled code can raise.\<close>

datatype error =
    IntegrityError        \<comment> \<open>\<open>sqlite3.IntegrityError\<close>: a UNIQUE constraint failed\<close>
  | InvalidToken          \<comment> \<open>\<open>cryptography.fernet.InvalidToken\<close>\<close>
  | UnicodeEncodeError
  | UnicodeDecodeError
  | ValueError
  | EOFError
  | SystemExit str        \<comment> \<open>\<open>raise SystemExit(message)\<close>\<close>

subsection \<open>\<open>str.encode()\<close> and \<open>bytes.decode()\<close>: strict UTF-8\<close>

text \<open>
  The source calls \<open>.encode()\<close> on the password (before hashing and before encrypting)
  and \<open>.decode()\<close> on the decrypted bytes, and \<open>sqlite3\<close> encodes every \<open>str\<close> that is
  bound to a \<open>?\<close> of a statement. All are Python's strict UTF-8 codec: a
  surrogate code point (\<open>U+D800\<close> to \<open>U+DFFF\<close>), which a Python \<open>str\<close> can hold, cannot
  be encoded and raises \<open>UnicodeEncodeError\<close>; bytes that are not well-formed UTF-8 raise
  \<open>UnicodeDecodeError\<close>. A natural that is no code point (\<open>0x110000\<close> or more) is in no
  Python \<open>str\<close>; the model refuses to encode it.
\<close>

definition byte :: "nat \<Rightarrow> 8 word" where
  "byte n = of_nat n"

definition utf8_encode_char :: "nat \<Rightarrow> bytes option" where
  "utf8_encode_char c =
     (if c < 0x80 then Some [byte c]
      else if c < 0x800 then Some [byte (0xC0 + c div 64), byte (0x80 + c mod 64)]
      else if c < 0x10000 then
        (if 0xD800 \<le> c \<and> c < 0xE000 then None
         else Some [byte (0xE0 + c div 4096), byte (0x80 + c div 64 mod 64),
                    byte (0x80 + c mod 64)])
      else if c < 0x110000 then
        Some [byte (0xF0 + c div 262144), byte (0x80 + c div 4096 mod 64),
              byte (0x80 + c div 64 mod 64), byte (0x80 + c mod 64)]
      else None)"

fun str_encode :: "str \<Rightarrow> error + bytes" where
  "str_encode [] = Inr []"
| "str_encode (c # cs) =
     (case utf8_encode_char c of
        None \<Rightarrow> Inl UnicodeEncodeError
      | Some bs \<Rightarrow> (case str_encode cs of Inl e \<Rightarrow> Inl e | Inr rest \<Rightarrow> Inr (bs @ rest)))"

definition is_cont :: "8 word \<Rightarrow> bool" where
  "is_cont b = (0x80 \<le> unat b \<and> unat b < 0xC0)"

text \<open>
  One code point off the front of a byte string: the lead byte gives the length, the
  continuation bytes must be \<open>10xxxxxx\<close>, and overlong forms, surrogates and values past
  \<open>U+10FFFF\<close> are refused.
\<close>

definition utf8_decode_char :: "bytes \<Rightarrow> (nat \<times> bytes) option" where
  "utf8_decode_char bs =
     (case bs of
        [] \<Rightarrow> None
      | b0 # r0 \<Rightarrow>
          if unat b0 < 0x80 then Some (unat b0, r0)
          else if 0xC2 \<le> unat b0 \<and> unat b0 < 0xE0 then
            (case r0 of
               b1 # r1 \<Rightarrow>
                 if is_cont b1 then Some ((unat b0 - 0xC0) * 64 + (unat b1 - 0x80), r1) else None
             | _ \<Rightarrow> None)
          else if 0xE0 \<le> unat b0 \<and> unat b0 < 0xF0 then
            (case r0 of
               b1 # b2 # r2 \<Rightarrow>
                 let c = (unat b0 - 0xE0) * 4096 + (unat b1 - 0x80) * 64 + (unat b2 - 0x80) in
                 if is_cont b1 \<and> is_cont b2 \<and> 0x800 \<le> c \<and> \<not> (0xD800 \<le> c \<and> c < 0xE000)
                 then Some (c, r2) else None
             | _ \<Rightarrow> None)
          else if 0xF0 \<le> unat b0 \<and> unat b0 < 0xF5 then
            (case r0 of
               b1 # b2 # b3 # r3 \<Rightarrow>
                 let c = (unat b0 - 0xF0) * 262144 + (unat b1 - 0x80) * 4096
                       + (unat b2 - 0x80) * 64 + (unat b3 - 0x80) in
                 if is_cont b1 \<and> is_cont b2 \<and> is_cont b3 \<and> 0x10000 \<le> c \<and> c < 0x110000
                 then Some (c, r3) else None
             | _ \<Rightarrow> None)
          else None)"

lemma utf8_decode_char_shorter:
  "utf8_decode_char bs = Some (c, rest) \<Longrightarrow> length rest < length bs"
  by (auto simp: utf8_decode_char_def Let_def split: list.splits if_splits)

function bytes_decode :: "bytes \<Rightarrow> error + str" where
  "bytes_decode bs =
     (if bs = [] then Inr []
      else case utf8_decode_char bs of
             None \<Rightarrow> Inl UnicodeDecodeError
           | Some (c, rest) \<Rightarrow>
               (case bytes_decode rest of Inl e \<Rightarrow> Inl e | Inr cs \<Rightarrow> Inr (c # cs)))"
  by pat_completeness auto
termination
  by (relation "measure length") (auto dest: utf8_decode_char_shorter)

declare bytes_decode.simps [simp del]

text \<open>A string that UTF-8 can encode: one without surrogates.\<close>

definition encodable :: "str \<Rightarrow> bool" where
  "encodable s = (case str_encode s of Inl e \<Rightarrow> False | Inr b \<Rightarrow> True)"

subsection \<open>DatabaseManager: the two tables\<close>

text \<open>
  Table \<open>master\<close> holds at most one row (\<open>id INTEGER PRIMARY KEY CHECK (id = 1)\<close>), so it is
  an option. Table \<open>passwords\<close> is the list of its rows in rowid order; \<open>seq\<close> is the
  largest rowid ever handed out (\<open>AUTOINCREMENT\<close>). A database file that has just been
  created has empty tables.
\<close>

record master_row =
  password_hash :: str
  salt :: str

record credential_row =
  row_id :: nat
  name :: str
  login :: str
  password_encrypted :: bytes

record database =
  master :: "master_row option"
  passwords :: "credential_row list"
  seq :: nat

definition init_database :: database where
  "init_database = \<lparr>master = None, passwords = [], seq = 0\<rparr>"

definition get_master_password :: "database \<Rightarrow> master_row option" where
  "get_master_password d = master d"

text \<open>
  A statement with \<open>?\<close> parameters first binds them, a \<open>str\<close> as its UTF-8 encoding:
  a string that has none raises \<open>UnicodeEncodeError\<close> before the statement runs.
  \<open>add_password\<close> is a plain \<open>INSERT INTO passwords (name, login, password_encrypted)\<close>:
  column \<open>name\<close> is \<open>UNIQUE\<close>, so a row whose name is already in the table makes the
  statement fail with \<open>IntegrityError\<close>, before \<open>commit\<close> and with the table as it was.
  Each operation that writes returns the exception or the result, and the database
  afterwards.
\<close>

definition add_password ::
  "str \<Rightarrow> str \<Rightarrow> bytes \<Rightarrow> database \<Rightarrow> (error + unit) \<times> database" where
  "add_password n l enc d =
     (if \<not> encodable n \<or> \<not> encodable l then (Inl UnicodeEncodeError, d)
      else if n \<in> set (map name (passwords d)) then (Inl IntegrityError, d)
      else (Inr (),
            d\<lparr>passwords := passwords d @
                   [\<lparr>row_id = Suc (seq d), name = n, login = l, password_encrypted = enc\<rparr>],
              seq := Suc (seq d)\<rparr>))"

text \<open>\<open>SELECT * FROM passwords WHERE name = ?\<close>, \<open>fetchone()\<close>: the first such row or \<open>None\<close>.\<close>

definition get_password :: "str \<Rightarrow> database \<Rightarrow> error + credential_row option" where
  "get_password n d =
     (if \<not> encodable n then Inl UnicodeEncodeError
      else Inr (find (\<lambda>r. name r = n) (passwords d)))"

text \<open>\<open>SELECT name, login FROM passwords ORDER BY name\<close>, \<open>fetchall()\<close>.\<close>

definition list_passwords :: "database \<Rightarrow> (str \<times> str) list" where
  "list_passwords d = map (\<lambda>r. (name r, login r)) (sort_key name (passwords d))"

text \<open>\<open>DELETE FROM passwords WHERE name = ?\<close>, then \<open>commit\<close>.\<close>

definition delete_password :: "str \<Rightarrow> database \<Rightarrow> (error + unit) \<times> database" where
  "delete_password n d =
     (if \<not> encodable n then (Inl UnicodeEncodeError, d)
      else (Inr (), d\<lparr>passwords := filter (\<lambda>r. name r \<noteq> n) (passwords d)\<rparr>))"

text \<open>
  The invariants of table \<open>passwords\<close>: the \<open>UNIQUE\<close> constraint keeps the names distinct,
  and every stored name and login was bound when its row was inserted.
\<close>

definition unique_names :: "database \<Rightarrow> bool" where
  "unique_names d = distinct (map name (passwords d))"

definition stored_text_encodable :: "database \<Rightarrow> bool" where
  "stored_text_encodable d = list_all (\<lambda>r. encodable (name r) \<and> encodable (login r)) (passwords d)"

subsection \<open>The libraries and the operating system\<close>

text \<open>
  What the program takes from \<open>hashlib\<close>, \<open>cryptography.fernet\<close>, \<open>secrets\<close> and the
  built-in \<open>int\<close> is a parameter of the model, so that every theorem holds whatever these
  compute. The random functions take the number of draws made so far (field \<open>rng\<close> of the
  world below), which stands for the state of the operating system's random source and
  clock.
  \<^item> \<open>sha256 b\<close>: the digest \<open>hashlib.sha256(b).digest()\<close>, 256 bits.
  \<^item> \<open>fernet_key_ok k\<close>: \<open>Fernet(k)\<close> accepts the key (else \<open>ValueError\<close>).
  \<^item> \<open>fernet_encrypt k n b\<close>: \<open>Fernet(k).encrypt(b)\<close> at the \<open>n\<close>-th draw (fresh IV, time stamp).
  \<^item> \<open>fernet_decrypt k t\<close>: \<open>Fernet(k).decrypt(t)\<close>, the plaintext or \<open>InvalidToken\<close>.
  \<^item> \<open>generate_key n\<close>: \<open>Fernet.generate_key()\<close>.
  \<^item> \<open>token_hex n\<close>: \<open>secrets.token_hex(16)\<close>.
  \<^item> \<open>choice n cs\<close>: \<open>secrets.choice(cs)\<close>.
  \<^item> \<open>py_int s\<close>: \<open>int(s)\<close> on a string, the integer or \<open>ValueError\<close>.
\<close>

record env =
  sha256 :: "bytes \<Rightarrow> 256 word"
  fernet_key_ok :: "bytes \<Rightarrow> bool"
  fernet_encrypt :: "bytes \<Rightarrow> nat \<Rightarrow> bytes \<Rightarrow> bytes"
  fernet_decrypt :: "bytes \<Rightarrow> bytes \<Rightarrow> error + bytes"
  generate_key :: "nat \<Rightarrow> bytes"
  token_hex :: "nat \<Rightarrow> str"
  choice :: "nat \<Rightarrow> str \<Rightarrow> nat"
  py_int :: "str \<Rightarrow> error + int"

text \<open>
  The contract of Fernet that the round trip needs: under one key, decrypting what was
  encrypted gives the plaintext back.
\<close>

definition fernet_correct :: "env \<Rightarrow> bool" where
  "fernet_correct E = (\<forall>k n b. fernet_decrypt E k (fernet_encrypt E k n b) = Inr b)"

text \<open>\<open>hexdigest()\<close>: the 64 lower-case hexadecimal digits of the digest, high nibble first.\<close>

definition hex_digit :: "nat \<Rightarrow> nat" where
  "hex_digit n = (if n < 10 then 48 + n else 87 + n)"

definition hexdigest :: "256 word \<Rightarrow> str" where
  "hexdigest h = map (\<lambda>i. hex_digit (unat (take_bit 4 (drop_bit (4 * (63 - i)) h)))) [0..<64]"

subsection \<open>DatabaseManager: the master password\<close>

text \<open>\<open>_hash_password\<close>: \<open>hashlib.sha256((password + salt).encode()).hexdigest()\<close>.\<close>

definition hash_password :: "env \<Rightarrow> str \<Rightarrow> str \<Rightarrow> error + str" where
  "hash_password E password slt =
     (case str_encode (password @ slt) of
        Inl e \<Rightarrow> Inl e
      | Inr b \<Rightarrow> Inr (hexdigest (sha256 E b)))"

text \<open>
  \<open>verify_master_password\<close>: \<open>False\<close> when table \<open>master\<close> has no row, else the comparison of
  the candidate's salted hash with the stored one.
\<close>

definition verify_master_password :: "env \<Rightarrow> str \<Rightarrow> database \<Rightarrow> error + bool" where
  "verify_master_password E password d =
     (case get_master_password d of
        None \<Rightarrow> Inr False
      | Some row \<Rightarrow>
          (case hash_password E password (salt row) of
             Inl e \<Rightarrow> Inl e
           | Inr h \<Rightarrow> Inr (h = password_hash row)))"

subsection \<open>EncryptionManager\<close>

text \<open>
  \<open>encrypt\<close> is \<open>self.fernet.encrypt(data.encode())\<close> and \<open>decrypt\<close> is
  \<open>self.fernet.decrypt(token).decode()\<close>; \<open>k\<close> is \<open>self.key\<close> and \<open>n\<close> the draw that
  gives the token its IV and time stamp.
\<close>

definition encrypt :: "env \<Rightarrow> bytes \<Rightarrow> nat \<Rightarrow> str \<Rightarrow> error + bytes" where
  "encrypt E k n data =
     (case str_encode data of
        Inl e \<Rightarrow> Inl e
      | Inr b \<Rightarrow> Inr (fernet_encrypt E k n b))"

definition decrypt :: "env \<Rightarrow> bytes \<Rightarrow> bytes \<Rightarrow> error + str" where
  "decrypt E k token =
     (case fernet_decrypt E k token of
        Inl e \<Rightarrow> Inl e
      | Inr b \<Rightarrow> bytes_decode b)"

subsection \<open>The world of a run\<close>

text \<open>
  A run of the program acts on the database file, the key file, the lines the user types
  (\<open>input\<close> and \<open>getpass.getpass\<close> both take the next line; at the end of the input they
  raise \<open>EOFError\<close>), what \<open>print\<close> has written, and the random source. Prompts are not
  recorded. Each printed message of the source is a constructor of \<open>message\<close>.
\<close>

datatype message =
    First_run              \<comment> \<open>first start, create a master password\<close>
  | Master_saved           \<comment> \<open>the master password is saved\<close>
  | Mismatch               \<comment> \<open>the passwords did not match\<close>
  | Wrong_password         \<comment> \<open>wrong password\<close>
  | Saved                  \<comment> \<open>the password is saved\<close>
  | New_password str       \<comment> \<open>the generated password\<close>
  | Not_found              \<comment> \<open>not found\<close>
  | Login_line str         \<comment> \<open>the login of the record\<close>
  | Password_line str      \<comment> \<open>the decrypted password of the record\<close>
  | Empty_list             \<comment> \<open>nothing stored yet\<close>
  | Entry str str          \<comment> \<open>one line of the listing: name and login\<close>
  | Deleted                \<comment> \<open>deleted\<close>
  | Menu                   \<comment> \<open>the menu\<close>
  | Bad_choice             \<comment> \<open>no such menu entry\<close>

record world =
  db :: database
  key_file :: "bytes option"
  stdin :: "str list"
  stdout :: "message list"
  rng :: nat

definition input_line :: "world \<Rightarrow> (error + str) \<times> world" where
  "input_line w =
     (case stdin w of
        [] \<Rightarrow> (Inl EOFError, w)
      | l # ls \<Rightarrow> (Inr l, w\<lparr>stdin := ls\<rparr>))"

definition print :: "message \<Rightarrow> world \<Rightarrow> world" where
  "print m w = w\<lparr>stdout := stdout w @ [m]\<rparr>"

text \<open>Sequencing: an exception ends the computation and keeps the world it was raised in.\<close>

definition and_then ::
  "(world \<Rightarrow> (error + 'a) \<times> world) \<Rightarrow> ('a \<Rightarrow> world \<Rightarrow> (error + 'b) \<times> world)
     \<Rightarrow> world \<Rightarrow> (error + 'b) \<times> world" where
  "and_then m f w = (case m w of (Inl e, w1) \<Rightarrow> (Inl e, w1) | (Inr a, w1) \<Rightarrow> f a w1)"

text \<open>
  \<open>set_master_password\<close> draws the salt, hashes and writes the single row of \<open>master\<close>
  (\<open>INSERT OR REPLACE\<close>).
\<close>

definition set_master_password :: "env \<Rightarrow> str \<Rightarrow> world \<Rightarrow> (error + unit) \<times> world" where
  "set_master_password E password w =
     (let slt = token_hex E (rng w);
          w1 = w\<lparr>rng := Suc (rng w)\<rparr>
      in case hash_password E password slt of
           Inl e \<Rightarrow> (Inl e, w1)
         | Inr hashed \<Rightarrow>
             (Inr (), w1\<lparr>db := (db w1)\<lparr>master := Some \<lparr>password_hash = hashed, salt = slt\<rparr>\<rparr>\<rparr>))"

text \<open>
  \<open>EncryptionManager.__init__\<close>: the key is read from the key file, or generated and
  written when there is none; then \<open>Fernet(self.key)\<close> checks it.
\<close>

definition EncryptionManager_init :: "env \<Rightarrow> world \<Rightarrow> (error + bytes) \<times> world" where
  "EncryptionManager_init E w =
     (case key_file w of
        Some k \<Rightarrow> if fernet_key_ok E k then (Inr k, w) else (Inl ValueError, w)
      | None \<Rightarrow>
          (let k = generate_key E (rng w);
               w1 = w\<lparr>key_file := Some k, rng := Suc (rng w)\<rparr>
           in if fernet_key_ok E k then (Inr k, w1) else (Inl ValueError, w1)))"

subsection \<open>PasswordGenerator: the command-line controller\<close>

text \<open>
  The methods of \<open>PasswordGenerator\<close> that share a name with a method of
  \<open>DatabaseManager\<close> carry the suffix \<open>_cli\<close>. \<open>E\<close> is the environment and \<open>k\<close> the key of
  \<open>self.crypto\<close>.
\<close>

definition on_db ::
  "(database \<Rightarrow> (error + 'a) \<times> database) \<Rightarrow> world \<Rightarrow> (error + 'a) \<times> world" where
  "on_db f w = (case f (db w) of (r, d) \<Rightarrow> (r, w\<lparr>db := d\<rparr>))"

definition say :: "message \<Rightarrow> world \<Rightarrow> (error + unit) \<times> world" where
  "say m w = (Inr (), print m w)"

definition encrypt_draw :: "env \<Rightarrow> bytes \<Rightarrow> str \<Rightarrow> world \<Rightarrow> (error + bytes) \<times> world" where
  "encrypt_draw E k data w =
     (case encrypt E k (rng w) data of
        Inl e \<Rightarrow> (Inl e, w)
      | Inr token \<Rightarrow> (Inr token, w\<lparr>rng := Suc (rng w)\<rparr>))"

lemma input_line_length:
  "input_line w = (r, w1) \<Longrightarrow> length (stdin w1) \<le> length (stdin w)"
  by (auto simp: input_line_def split: list.splits)

lemma input_line_shorter:
  "input_line w = (Inr l, w1) \<Longrightarrow> length (stdin w1) < length (stdin w)"
  by (auto simp: input_line_def split: list.splits)

lemma stdin_print [simp]: "stdin (print m w) = stdin w"
  by (simp add: print_def)

text \<open>
  \<open>setup_master_password\<close>: nothing to do when a master row exists; else the loop asks for
  the password twice until the first entry is not empty and both are equal.
\<close>

function setup_master_password_loop :: "env \<Rightarrow> world \<Rightarrow> (error + unit) \<times> world" where
  "setup_master_password_loop E w =
     (case input_line w of
        (Inl e, w1) \<Rightarrow> (Inl e, w1)
      | (Inr p1, w1) \<Rightarrow>
          (case input_line w1 of
             (Inl e, w2) \<Rightarrow> (Inl e, w2)
           | (Inr p2, w2) \<Rightarrow>
               if p1 \<noteq> [] \<and> p1 = p2 then
                 (case set_master_password E p1 w2 of
                    (Inl e, w3) \<Rightarrow> (Inl e, w3)
                  | (Inr u, w3) \<Rightarrow> (Inr (), print Master_saved w3))
               else setup_master_password_loop E (print Mismatch w2)))"
  by pat_completeness auto
termination
  by (relation "measure (\<lambda>(E, w). length (stdin w))")
    (auto dest!: input_line_shorter [OF sym])

declare setup_master_password_loop.simps [simp del]

definition setup_master_password :: "env \<Rightarrow> world \<Rightarrow> (error + unit) \<times> world" where
  "setup_master_password E w =
     (if get_master_password (db w) \<noteq> None then (Inr (), w)
      else setup_master_password_loop E (print First_run w))"

text \<open>
  \<open>authenticate\<close>: \<open>for _ in range(3)\<close>, then \<open>raise SystemExit(message)\<close>. The first
  argument of the loop is the number of rounds left.
\<close>

definition too_many_attempts :: str where
  "too_many_attempts = [1057, 1083, 1080, 1096, 1082, 1086, 1084, 32, 1084, 1085, 1086, 1075,
     1086, 32, 1087, 1086, 1087, 1099, 1090, 1086, 1082, 46]"

fun authenticate_loop :: "nat \<Rightarrow> env \<Rightarrow> world \<Rightarrow> (error + unit) \<times> world" where
  "authenticate_loop 0 E w = (Inl (SystemExit too_many_attempts), w)"
| "authenticate_loop (Suc n) E w =
     (case input_line w of
        (Inl e, w1) \<Rightarrow> (Inl e, w1)
      | (Inr pwd, w1) \<Rightarrow>
          (case verify_master_password E pwd (db w1) of
             Inl e \<Rightarrow> (Inl e, w1)
           | Inr ok \<Rightarrow>
               if ok then (Inr (), w1)
               else authenticate_loop n E (print Wrong_password w1)))"

definition authenticate :: "env \<Rightarrow> world \<Rightarrow> (error + unit) \<times> world" where
  "authenticate E w = authenticate_loop 3 E w"

text \<open>
  The world after three refused attempts: the three lines are read, the refusal is printed
  three times, and nothing else has changed.
\<close>

definition after_three_failures :: "str list \<Rightarrow> world \<Rightarrow> world" where
  "after_three_failures rest w =
     print Wrong_password (print Wrong_password (print Wrong_password (w\<lparr>stdin := rest\<rparr>)))"

text \<open>The operations of the menu.\<close>

definition add_password_cli :: "env \<Rightarrow> bytes \<Rightarrow> world \<Rightarrow> (error + unit) \<times> world" where
  "add_password_cli E k =
     and_then input_line (\<lambda>nm.
     and_then input_line (\<lambda>lg.
     and_then input_line (\<lambda>password.
     and_then (encrypt_draw E k password) (\<lambda>encrypted.
     and_then (on_db (add_password nm lg encrypted)) (\<lambda>u.
     say Saved)))))"

definition chars :: str where
  "chars = str_of (''abcdefghijklmnopqrstuvwxyz'' @ ''ABCDEFGHIJKLMNOPQRSTUVWXYZ''
                   @ ''0123456789'' @ ''!@#$%^&*()'')"

text \<open>
  \<open>generate_password_interactive\<close>: \<open>int(input(...) or 16)\<close> takes 16 for an empty line;
  \<open>range(length)\<close> is empty for a length below 1, and then the join is the empty string.
\<close>

definition generate_password_interactive :: "env \<Rightarrow> world \<Rightarrow> (error + unit) \<times> world" where
  "generate_password_interactive E =
     and_then input_line (\<lambda>line.
     and_then (\<lambda>w. (if line = [] then Inr 16 else py_int E line, w)) (\<lambda>len w.
       let password = map (\<lambda>i. choice E (rng w + i) chars) [0..<nat len]
       in say (New_password password) (w\<lparr>rng := rng w + nat len\<rparr>)))"

definition get_password_cli :: "env \<Rightarrow> bytes \<Rightarrow> world \<Rightarrow> (error + unit) \<times> world" where
  "get_password_cli E k =
     and_then input_line (\<lambda>nm w.
       case get_password nm (db w) of
         Inl e \<Rightarrow> (Inl e, w)
       | Inr None \<Rightarrow> say Not_found w
       | Inr (Some row) \<Rightarrow>
           (case decrypt E k (password_encrypted row) of
              Inl e \<Rightarrow> (Inl e, w)
            | Inr password \<Rightarrow>
                (Inr (), print (Password_line password) (print (Login_line (login row)) w))))"

definition list_passwords_cli :: "world \<Rightarrow> (error + unit) \<times> world" where
  "list_passwords_cli w =
     (let rows = list_passwords (db w)
      in if rows = [] then say Empty_list w
         else (Inr (), foldl (\<lambda>w' r. print (Entry (fst r) (snd r)) w') w rows))"

definition delete_password_cli :: "world \<Rightarrow> (error + unit) \<times> world" where
  "delete_password_cli =
     and_then input_line (\<lambda>nm.
     and_then (on_db (delete_password nm)) (\<lambda>u.
     say Deleted))"

text \<open>What the operations do to the pending input: they only take lines off its front.\<close>

lemma and_then_length:
  assumes "and_then m f w = (r, w')"
    and "\<And>w r w1. m w = (r, w1) \<Longrightarrow> length (stdin w1) \<le> length (stdin w)"
    and "\<And>a w r w1. f a w = (r, w1) \<Longrightarrow> length (stdin w1) \<le> length (stdin w)"
  shows "length (stdin w') \<le> length (stdin w)"
proof (cases "m w")
  case (Pair res w1)
  with assms(2) have l1: "length (stdin w1) \<le> length (stdin w)" by blast
  show ?thesis
  proof (cases res)
    case (Inl e)
    with Pair assms(1) l1 show ?thesis by (simp add: and_then_def)
  next
    case (Inr a)
    with Pair assms(1) have "f a w1 = (r, w')" by (simp add: and_then_def)
    with assms(3) have "length (stdin w') \<le> length (stdin w1)" by blast
    with l1 show ?thesis by simp
  qed
qed

lemma say_length: "say m w = (r, w1) \<Longrightarrow> length (stdin w1) \<le> length (stdin w)"
  by (auto simp: say_def)

lemma on_db_length: "on_db f w = (r, w1) \<Longrightarrow> length (stdin w1) \<le> length (stdin w)"
  by (auto simp: on_db_def split: prod.splits)

lemma encrypt_draw_length:
  "encrypt_draw E k data w = (r, w1) \<Longrightarrow> length (stdin w1) \<le> length (stdin w)"
  by (auto simp: encrypt_draw_def split: sum.splits)

lemma add_password_cli_length:
  "add_password_cli E k w = (r, w1) \<Longrightarrow> length (stdin w1) \<le> length (stdin w)"
  unfolding add_password_cli_def
  by (erule and_then_length, erule input_line_length)+
    (erule and_then_length, erule encrypt_draw_length,
     erule and_then_length, erule on_db_length, erule say_length)

lemma generate_password_interactive_length:
  "generate_password_interactive E w = (r, w1) \<Longrightarrow> length (stdin w1) \<le> length (stdin w)"
  unfolding generate_password_interactive_def
  by (erule and_then_length, erule input_line_length, erule and_then_length)
    (auto simp: say_def)

lemma get_password_cli_length:
  "get_password_cli E k w = (r, w1) \<Longrightarrow> length (stdin w1) \<le> length (stdin w)"
  unfolding get_password_cli_def
  by (erule and_then_length, erule input_line_length)
    (auto simp: say_def split: option.splits sum.splits)

lemma stdin_foldl_print:
  "stdin (foldl (\<lambda>w' r. print (g r) w') w rows) = stdin w"
  by (induction rows arbitrary: w) simp_all

lemma list_passwords_cli_length:
  "list_passwords_cli w = (r, w1) \<Longrightarrow> length (stdin w1) \<le> length (stdin w)"
  by (auto simp: list_passwords_cli_def Let_def say_def stdin_foldl_print split: if_splits)

lemma delete_password_cli_length:
  "delete_password_cli w = (r, w1) \<Longrightarrow> length (stdin w1) \<le> length (stdin w)"
  unfolding delete_password_cli_def
  by (erule and_then_length, erule input_line_length, erule and_then_length,
      erule on_db_length, erule say_length)

text \<open>
  \<open>show_menu\<close>: \<open>while True\<close>, left by the choice \<open>0\<close>. No \<open>try\<close> stands around the
  operations (there is none in the program), so an exception of an operation leaves the
  loop and the program.
\<close>

function show_menu :: "env \<Rightarrow> bytes \<Rightarrow> world \<Rightarrow> (error + unit) \<times> world" where
  "show_menu E k w =
     (case input_line (print Menu w) of
        (Inl e, w1) \<Rightarrow> (Inl e, w1)
      | (Inr c, w1) \<Rightarrow>
          if c = str_of ''1'' then
            (case add_password_cli E k w1 of
               (Inl e, w2) \<Rightarrow> (Inl e, w2) | (Inr u, w2) \<Rightarrow> show_menu E k w2)
          else if c = str_of ''2'' then
            (case get_password_cli E k w1 of
               (Inl e, w2) \<Rightarrow> (Inl e, w2) | (Inr u, w2) \<Rightarrow> show_menu E k w2)
          else if c = str_of ''3'' then
            (case list_passwords_cli w1 of
               (Inl e, w2) \<Rightarrow> (Inl e, w2) | (Inr u, w2) \<Rightarrow> show_menu E k w2)
          else if c = str_of ''4'' then
            (case delete_password_cli w1 of
               (Inl e, w2) \<Rightarrow> (Inl e, w2) | (Inr u, w2) \<Rightarrow> show_menu E k w2)
          else if c = str_of ''5'' then
            (case generate_password_interactive E w1 of
               (Inl e, w2) \<Rightarrow> (Inl e, w2) | (Inr u, w2) \<Rightarrow> show_menu E k w2)
          else if c = str_of ''0'' then (Inr (), w1)
          else show_menu E k (print Bad_choice w1))"
  by pat_completeness auto
termination
  by (relation "measure (\<lambda>(E, k, w). length (stdin w))")
    (auto dest!: input_line_shorter [OF sym] add_password_cli_length [OF sym]
       get_password_cli_length [OF sym] list_passwords_cli_length [OF sym]
       delete_password_cli_length [OF sym] generate_password_interactive_length [OF sym])

declare show_menu.simps [simp del]

text \<open>
  \<open>PasswordGenerator.__init__\<close> and the program \<open>PasswordGenerator().show_menu()\<close>.
  \<open>DatabaseManager()\<close> opens the file and creates the two tables if they are missing, which
  leaves a database of the model as it is.
\<close>

definition PasswordGenerator_init :: "env \<Rightarrow> world \<Rightarrow> (error + bytes) \<times> world" where
  "PasswordGenerator_init E =
     and_then (EncryptionManager_init E) (\<lambda>k.
     and_then (setup_master_password E) (\<lambda>u.
     and_then (authenticate E) (\<lambda>u w. (Inr k, w))))"

definition main :: "env \<Rightarrow> world \<Rightarrow> (error + unit) \<times> world" where
  "main E = and_then (PasswordGenerator_init E) (\<lambda>k. show_menu E k)"

text \<open>
  The exit status of the process: 0 when the program returns; 1 when it ends with
  \<open>SystemExit\<close> raised with a string (which is written to the error stream) or with any
  other exception that nothing catches.
\<close>

definition exit_status :: "(error + unit) \<Rightarrow> int" where
  "exit_status r = (case r of Inr u \<Rightarrow> 0 | Inl e \<Rightarrow> 1)"

subsection \<open>An environment and stores for the examples\<close>

text \<open>
  The examples need some environment. \<open>demo_env\<close> stands in for the libraries there, and
  only there: its Fernet writes a version byte, the draw, the key and the plaintext, and
  refuses every token that does not start so; its \<open>int\<close> reads an optional minus sign and
  ASCII digits, as Python's does on such strings.
\<close>

definition demo_sha256 :: "bytes \<Rightarrow> 256 word" where
  "demo_sha256 b = of_nat (foldl (\<lambda>a x. 257 * a + unat x + 1) 0 b)"

definition demo_fernet_encrypt :: "bytes \<Rightarrow> nat \<Rightarrow> bytes \<Rightarrow> bytes" where
  "demo_fernet_encrypt k n b = 0x80 # byte (n mod 256) # k @ b"

definition demo_fernet_decrypt :: "bytes \<Rightarrow> bytes \<Rightarrow> error + bytes" where
  "demo_fernet_decrypt k t =
     (case t of
        v # iv # rest \<Rightarrow>
          if v = 0x80 \<and> take (length k) rest = k then Inr (drop (length k) rest)
          else Inl InvalidToken
      | _ \<Rightarrow> Inl InvalidToken)"

definition digits_value :: "str \<Rightarrow> nat option" where
  "digits_value ds =
     (if ds \<noteq> [] \<and> list_all (\<lambda>d. 48 \<le> d \<and> d \<le> 57) ds
      then Some (foldl (\<lambda>a d. 10 * a + (d - 48)) 0 ds) else None)"

definition demo_int :: "str \<Rightarrow> error + int" where
  "demo_int s =
     (case s of
        [] \<Rightarrow> Inl ValueError
      | c # cs \<Rightarrow>
          if c = 45 then
            (case digits_value cs of None \<Rightarrow> Inl ValueError | Some n \<Rightarrow> Inr (- int n))
          else
            (case digits_value s of None \<Rightarrow> Inl ValueError | Some n \<Rightarrow> Inr (int n)))"

definition demo_env :: env where
  "demo_env = \<lparr>sha256 = demo_sha256,
               fernet_key_ok = (\<lambda>k. length k = 2),
               fernet_encrypt = demo_fernet_encrypt,
               fernet_decrypt = demo_fernet_decrypt,
               generate_key = (\<lambda>n. [byte (n mod 256), 0x4B]),
               token_hex = (\<lambda>n. str_of ''00112233445566778899aabbccddeeff''),
               choice = (\<lambda>n cs. cs ! (n mod length cs)),
               py_int = demo_int\<rparr>"

definition demo_key :: bytes where
  "demo_key = [0x2A, 0x4B]"

definition github_row :: credential_row where
  "github_row = \<lparr>row_id = 1, name = str_of ''github'', login = str_of ''alice'',
                  password_encrypted = [1, 2, 3]\<rparr>"

definition bank_row :: credential_row where
  "bank_row = \<lparr>row_id = 2, name = str_of ''bank'', login = str_of ''bob'',
                password_encrypted = [4, 5]\<rparr>"

definition demo_db :: database where
  "demo_db = \<lparr>master = None, passwords = [github_row, bank_row], seq = 2\<rparr>"

text \<open>The master row of the password \<open>Sunflower42!\<close> under the salt \<open>a1b2\<close>.\<close>

definition demo_master :: master_row where
  "demo_master =
     \<lparr>password_hash = hexdigest (sha256 demo_env (map byte (str_of ''Sunflower42!'' @ str_of ''a1b2''))),
      salt = str_of ''a1b2''\<rparr>"

definition demo_locked_db :: database where
  "demo_locked_db = demo_db\<lparr>master := Some demo_master\<rparr>"

definition demo_world :: "str list \<Rightarrow> world" where
  "demo_world lines =
     \<lparr>db = demo_locked_db, key_file = Some demo_key, stdin = lines, stdout = [], rng = 0\<rparr>"

text \<open>The world of a first start: an empty database and no key file.\<close>

definition demo_fresh_world :: "str list \<Rightarrow> world" where
  "demo_fresh_world lines =
     \<lparr>db = init_database, key_file = None, stdin = lines, stdout = [], rng = 0\<rparr>"

section \<open>Properties of the codec and of the digest\<close>

subsection \<open>The codec\<close>

lemma u8: "n < 256 \<Longrightarrow> unat (byte n) = n"
  by (simp add: byte_def unat_of_nat)

lemma div_4096: "(c::nat) div 4096 = c div 64 div 64"
  using div_mult2_eq [of c 64 64] by simp

lemma div_262144: "(c::nat) div 262144 = c div 64 div 64 div 64"
  using div_mult2_eq [of c 4096 64] by (simp add: div_4096)

lemma join2: "(c::nat) div 64 * 64 + c mod 64 = c"
  by simp

lemma join3: "(c::nat) div 4096 * 4096 + c div 64 mod 64 * 64 + c mod 64 = c"
proof -
  have e: "a * 4096 + b * 64 = (a * 64 + b) * 64" for a b :: nat
    by simp
  have "c div 4096 * 4096 + c div 64 mod 64 * 64 = (c div 64 div 64 * 64 + c div 64 mod 64) * 64"
    unfolding div_4096 by (rule e)
  also have "\<dots> = c div 64 * 64"
    by (simp only: join2)
  finally show ?thesis by (simp only: join2)
qed

lemma join4:
  "(c::nat) div 262144 * 262144 + c div 4096 mod 64 * 4096 + c div 64 mod 64 * 64 + c mod 64 = c"
proof -
  have e: "a * 262144 + b * 4096 + d * 64 = (a * 4096 + b * 64 + d) * 64" for a b d :: nat
    by simp
  have d1: "c div 262144 = c div 64 div 4096"
    by (simp only: div_262144 div_4096)
  have d2: "c div 4096 = c div 64 div 64"
    by (rule div_4096)
  have "c div 262144 * 262144 + c div 4096 mod 64 * 4096 + c div 64 mod 64 * 64
      = (c div 64 div 4096 * 4096 + c div 64 div 64 mod 64 * 64 + c div 64 mod 64) * 64"
    unfolding d1 d2 by (rule e)
  also have "\<dots> = c div 64 * 64"
    by (simp only: join3)
  finally show ?thesis by (simp only: join2)
qed

lemma decode1: "unat b0 < 0x80 \<Longrightarrow> utf8_decode_char (b0 # r) = Some (unat b0, r)"
  by (simp add: utf8_decode_char_def)

lemma decode2:
  assumes "0xC2 \<le> unat b0" "unat b0 < 0xE0" "is_cont b1"
  shows "utf8_decode_char (b0 # b1 # r) = Some ((unat b0 - 0xC0) * 64 + (unat b1 - 0x80), r)"
  using assms by (simp add: utf8_decode_char_def)

lemma decode3:
  assumes "0xE0 \<le> unat b0" "unat b0 < 0xF0" "is_cont b1" "is_cont b2"
    and "c = (unat b0 - 0xE0) * 4096 + (unat b1 - 0x80) * 64 + (unat b2 - 0x80)"
    and "0x800 \<le> c" "\<not> (0xD800 \<le> c \<and> c < 0xE000)"
  shows "utf8_decode_char (b0 # b1 # b2 # r) = Some (c, r)"
proof -
  from assms(1,2) have "\<not> unat b0 < 0x80" "\<not> (0xC2 \<le> unat b0 \<and> unat b0 < 0xE0)"
    by simp_all
  with assms show ?thesis
    by (simp only: utf8_decode_char_def list.case Let_def if_True if_False simp_thms)
qed

lemma decode4:
  assumes "0xF0 \<le> unat b0" "unat b0 < 0xF5" "is_cont b1" "is_cont b2" "is_cont b3"
    and "c = (unat b0 - 0xF0) * 262144 + (unat b1 - 0x80) * 4096
           + (unat b2 - 0x80) * 64 + (unat b3 - 0x80)"
    and "0x10000 \<le> c" "c < 0x110000"
  shows "utf8_decode_char (b0 # b1 # b2 # b3 # r) = Some (c, r)"
proof -
  from assms(1,2) have "\<not> unat b0 < 0x80" "\<not> (0xC2 \<le> unat b0 \<and> unat b0 < 0xE0)"
    "\<not> (0xE0 \<le> unat b0 \<and> unat b0 < 0xF0)"
    by simp_all
  with assms show ?thesis
    by (simp only: utf8_decode_char_def list.case Let_def if_True if_False simp_thms)
qed

lemma cont_byte: "n < 64 \<Longrightarrow> is_cont (byte (0x80 + n)) \<and> unat (byte (0x80 + n)) - 0x80 = n"
  by (simp add: is_cont_def u8)

lemma utf8_char_roundtrip:
  assumes "utf8_encode_char c = Some bs"
  shows "utf8_decode_char (bs @ rest) = Some (c, rest)"
proof -
  consider (a) "c < 0x80" | (b) "0x80 \<le> c" "c < 0x800" | (c3) "0x800 \<le> c" "c < 0x10000"
    | (d) "0x10000 \<le> c" "c < 0x110000" | (e) "0x110000 \<le> c"
    by linarith
  then show ?thesis
  proof cases
    case a
    then have bs: "bs = [byte c]"
      using assms by (simp add: utf8_encode_char_def)
    from a have "unat (byte c) = c" by (intro u8) simp
    with a show ?thesis
      unfolding bs using decode1 [of "byte c" rest] by simp
  next
    case b
    then have bs: "bs = [byte (0xC0 + c div 64), byte (0x80 + c mod 64)]"
      using assms by (simp add: utf8_encode_char_def)
    from b have d: "c div 64 < 32" "2 \<le> c div 64" by simp_all
    have u0: "unat (byte (0xC0 + c div 64)) = 0xC0 + c div 64"
      using d by (intro u8) simp
    have c1: "is_cont (byte (0x80 + c mod 64)) \<and> unat (byte (0x80 + c mod 64)) - 0x80 = c mod 64"
      by (rule cont_byte) simp
    have "utf8_decode_char (byte (0xC0 + c div 64) # byte (0x80 + c mod 64) # rest)
        = Some ((unat (byte (0xC0 + c div 64)) - 0xC0) * 64
                + (unat (byte (0x80 + c mod 64)) - 0x80), rest)"
      using d c1 by (intro decode2) (simp_all add: u0)
    also have "\<dots> = Some (c, rest)"
      using c1 by (simp add: u0)
    finally show ?thesis unfolding bs by simp
  next
    case c3
    then have ns: "\<not> (0xD800 \<le> c \<and> c < 0xE000)"
      and bs: "bs = [byte (0xE0 + c div 4096), byte (0x80 + c div 64 mod 64),
                    byte (0x80 + c mod 64)]"
      using assms by (auto simp: utf8_encode_char_def split: if_splits)
    from c3 have d: "c div 4096 < 16" by simp
    have u0: "unat (byte (0xE0 + c div 4096)) = 0xE0 + c div 4096"
      using d by (intro u8) simp
    have c1: "is_cont (byte (0x80 + c div 64 mod 64))
        \<and> unat (byte (0x80 + c div 64 mod 64)) - 0x80 = c div 64 mod 64"
      by (rule cont_byte) simp
    have c2: "is_cont (byte (0x80 + c mod 64)) \<and> unat (byte (0x80 + c mod 64)) - 0x80 = c mod 64"
      by (rule cont_byte) simp
    have "utf8_decode_char (byte (0xE0 + c div 4096) # byte (0x80 + c div 64 mod 64)
            # byte (0x80 + c mod 64) # rest) = Some (c, rest)"
    proof (rule decode3)
      show "c = (unat (byte (0xE0 + c div 4096)) - 0xE0) * 4096
              + (unat (byte (0x80 + c div 64 mod 64)) - 0x80) * 64
              + (unat (byte (0x80 + c mod 64)) - 0x80)"
        using c1 c2 join3 [of c] by (simp add: u0)
    qed (use c3 ns d c1 c2 in \<open>simp_all add: u0\<close>)
    then show ?thesis unfolding bs by simp
  next
    case d
    then have bs: "bs = [byte (0xF0 + c div 262144), byte (0x80 + c div 4096 mod 64),
              byte (0x80 + c div 64 mod 64), byte (0x80 + c mod 64)]"
      using assms by (auto simp: utf8_encode_char_def split: if_splits)
    from d have dd: "c div 262144 < 5" by simp
    have u0: "unat (byte (0xF0 + c div 262144)) = 0xF0 + c div 262144"
      using dd by (intro u8) simp
    have c1: "is_cont (byte (0x80 + c div 4096 mod 64))
        \<and> unat (byte (0x80 + c div 4096 mod 64)) - 0x80 = c div 4096 mod 64"
      by (rule cont_byte) simp
    have c2: "is_cont (byte (0x80 + c div 64 mod 64))
        \<and> unat (byte (0x80 + c div 64 mod 64)) - 0x80 = c div 64 mod 64"
      by (rule cont_byte) simp
    have c3: "is_cont (byte (0x80 + c mod 64)) \<and> unat (byte (0x80 + c mod 64)) - 0x80 = c mod 64"
      by (rule cont_byte) simp
    have "utf8_decode_char (byte (0xF0 + c div 262144) # byte (0x80 + c div 4096 mod 64)
            # byte (0x80 + c div 64 mod 64) # byte (0x80 + c mod 64) # rest) = Some (c, rest)"
    proof (rule decode4)
      show "c = (unat (byte (0xF0 + c div 262144)) - 0xF0) * 262144
              + (unat (byte (0x80 + c div 4096 mod 64)) - 0x80) * 4096
              + (unat (byte (0x80 + c div 64 mod 64)) - 0x80) * 64
              + (unat (byte (0x80 + c mod 64)) - 0x80)"
        using c1 c2 c3 join4 [of c] by (simp add: u0)
    qed (use d dd c1 c2 c3 in \<open>simp_all add: u0\<close>)
    then show ?thesis unfolding bs by simp
  next
    case e
    with assms show ?thesis by (simp add: utf8_encode_char_def)
  qed
qed

lemma utf8_encode_char_nonempty: "utf8_encode_char c = Some bs \<Longrightarrow> bs \<noteq> []"
  by (auto simp: utf8_encode_char_def split: if_splits)

lemma str_roundtrip: "str_encode s = Inr bs \<Longrightarrow> bytes_decode bs = Inr s"
proof (induction s arbitrary: bs)
  case Nil
  then show ?case by (simp add: bytes_decode.simps)
next
  case (Cons c cs)
  from Cons.prems obtain b rest where b: "utf8_encode_char c = Some b"
    and rest: "str_encode cs = Inr rest" and bs: "bs = b @ rest"
    by (auto split: option.splits sum.splits)
  from b have ne: "b @ rest \<noteq> []" by (auto dest: utf8_encode_char_nonempty)
  have "utf8_decode_char (b @ rest) = Some (c, rest)" using b by (rule utf8_char_roundtrip)
  moreover have "bytes_decode rest = Inr cs" using rest by (rule Cons.IH)
  ultimately show ?case
    unfolding bs using ne by (subst bytes_decode.simps) simp
qed

lemma str_encode_inj:
  assumes "str_encode a = Inr x" and "str_encode b = Inr x"
  shows "a = b"
proof -
  from assms have "bytes_decode x = Inr a" and "bytes_decode x = Inr b"
    by (auto dest: str_roundtrip)
  then show ?thesis by simp
qed

lemma str_encode_error: "str_encode s = Inl e \<Longrightarrow> e = UnicodeEncodeError"
  by (induction s arbitrary: e) (auto split: option.splits sum.splits)

lemma str_encode_append:
  "str_encode (a @ b) =
     (case str_encode a of
        Inl e \<Rightarrow> Inl e
      | Inr x \<Rightarrow> (case str_encode b of Inl e \<Rightarrow> Inl UnicodeEncodeError | Inr y \<Rightarrow> Inr (x @ y)))"
proof (induction a)
  case Nil
  show ?case by (auto split: sum.splits dest: str_encode_error)
next
  case (Cons c cs)
  then show ?case by (auto split: option.splits sum.splits)
qed

lemma str_encode_ascii: "\<forall>c\<in>set s. c < 0x80 \<Longrightarrow> str_encode s = Inr (map byte s)"
  by (induction s) (simp_all add: utf8_encode_char_def)

lemma str_encode_surrogate: "str_encode (0xD800 # s) = Inl UnicodeEncodeError"
  by (simp add: utf8_encode_char_def)

subsection \<open>The hexadecimal digest\<close>

lemma hex_digit_inj: "a < 16 \<Longrightarrow> b < 16 \<Longrightarrow> hex_digit a = hex_digit b \<Longrightarrow> a = b"
  by (auto simp: hex_digit_def split: if_splits)

lemma nibble_less: "unat (take_bit 4 (w :: 256 word)) < 16"
proof -
  have "unat (take_bit 4 w) = take_bit 4 (unat w)"
    by (simp add: unsigned_take_bit_eq)
  also have "\<dots> < 2 ^ 4" by (rule take_bit_nat_less_exp)
  finally show ?thesis by simp
qed

lemma hexdigest_nibbles:
  assumes "hexdigest a = hexdigest b" and "i < 64"
  shows "take_bit 4 (drop_bit (4 * i) a) = take_bit 4 (drop_bit (4 * i) b)"
proof -
  let ?f = "\<lambda>h i. hex_digit (unat (take_bit 4 (drop_bit (4 * (63 - i)) h)))"
  from assms(2) have j: "63 - i < 64" by simp
  from assms(1) have "map (?f a) [0..<64] ! (63 - i) = map (?f b) [0..<64] ! (63 - i)"
    by (simp add: hexdigest_def)
  with j have "?f a (63 - i) = ?f b (63 - i)"
    by (simp only: nth_map_upt minus_nat.diff_0 add_0)
  moreover from assms(2) have "63 - (63 - i) = i" by simp
  ultimately have "hex_digit (unat (take_bit 4 (drop_bit (4 * i) a)))
      = hex_digit (unat (take_bit 4 (drop_bit (4 * i) b)))"
    by simp
  then have "unat (take_bit 4 (drop_bit (4 * i) a)) = unat (take_bit 4 (drop_bit (4 * i) b))"
    by (rule hex_digit_inj [OF nibble_less nibble_less])
  then show ?thesis by (rule unsigned_word_eqI)
qed

lemma hexdigest_inj:
  assumes "hexdigest a = hexdigest b"
  shows "a = b"
proof (rule bit_word_eqI)
  fix n assume "n < LENGTH(256)"
  then have n: "n < 256" by simp
  then have i: "n div 4 < 64" by simp
  have m: "n mod 4 < 4" by simp
  have e: "4 * (n div 4) + n mod 4 = n" by simp
  from hexdigest_nibbles [OF assms i]
  have "bit (take_bit 4 (drop_bit (4 * (n div 4)) a)) (n mod 4)
      = bit (take_bit 4 (drop_bit (4 * (n div 4)) b)) (n mod 4)"
    by simp
  with m show "bit a n = bit b n"
    by (simp add: bit_take_bit_iff bit_drop_bit_eq e)
qed
section \<open>Properties of the tables\<close>

lemma encodable_iff: "encodable s \<longleftrightarrow> (\<exists>b. str_encode s = Inr b)"
  by (auto simp: encodable_def split: sum.splits)

lemma not_encodable_iff: "\<not> encodable s \<longleftrightarrow> str_encode s = Inl UnicodeEncodeError"
  by (auto simp: encodable_def split: sum.splits dest: str_encode_error)

lemma encodable_ascii: "\<forall>c\<in>set s. c < 0x80 \<Longrightarrow> encodable s"
  by (simp add: encodable_iff str_encode_ascii)

lemma not_encodable_surrogate: "\<not> encodable (0xD800 # s)"
  by (simp only: not_encodable_iff str_encode_surrogate)

lemma unique_names_init: "unique_names init_database"
  by (simp add: unique_names_def init_database_def)

lemma unique_names_add: "unique_names d \<Longrightarrow> unique_names (snd (add_password n l enc d))"
  by (simp add: unique_names_def add_password_def)

lemma unique_names_delete: "unique_names d \<Longrightarrow> unique_names (snd (delete_password n d))"
  by (simp add: unique_names_def delete_password_def distinct_map_filter)

lemma stored_text_encodable_init: "stored_text_encodable init_database"
  by (simp add: stored_text_encodable_def init_database_def)

lemma stored_text_encodable_add:
  "stored_text_encodable d \<Longrightarrow> stored_text_encodable (snd (add_password n l enc d))"
  by (simp add: stored_text_encodable_def add_password_def)

lemma stored_text_encodable_delete:
  "stored_text_encodable d \<Longrightarrow> stored_text_encodable (snd (delete_password n d))"
  by (simp add: stored_text_encodable_def delete_password_def list_all_iff)

lemma filter_unique_row:
  "distinct (map f xs) \<Longrightarrow> r \<in> set xs \<Longrightarrow> filter (\<lambda>x. f x = f r) xs = [r]"
proof (induction xs)
  case Nil
  then show ?case by simp
next
  case (Cons x xs)
  show ?case
  proof (cases "x = r")
    case True
    with Cons.prems have "f r \<notin> f ` set xs" by simp
    then have "\<forall>y\<in>set xs. f y \<noteq> f r" by (metis imageI)
    then have "filter (\<lambda>y. f y = f r) xs = []" by (simp add: filter_empty_conv)
    with True show ?thesis by simp
  next
    case False
    with Cons.prems have "r \<in> set xs" and "f x \<noteq> f r" and "distinct (map f xs)" by auto
    with Cons.IH show ?thesis by simp
  qed
qed

lemma add_password_error_keeps_store:
  "fst (add_password n l enc d) = Inl e \<Longrightarrow> snd (add_password n l enc d) = d"
  by (auto simp: add_password_def split: if_splits)

lemma add_password_duplicate:
  assumes "encodable n" and "n \<in> set (map name (passwords d))"
  shows "add_password n l enc d
       = (Inl (if encodable l then IntegrityError else UnicodeEncodeError), d)"
  using assms by (simp add: add_password_def)

lemma find_append_absent: "find P xs = None \<Longrightarrow> find P (xs @ ys) = find P ys"
  by (induction xs) (auto split: if_splits)

lemma add_password_fresh:
  assumes "encodable n" and "encodable l" and "n \<notin> set (map name (passwords d))"
  shows "fst (add_password n l enc d) = Inr () \<and>
         get_password n (snd (add_password n l enc d)) =
           Inr (Some \<lparr>row_id = Suc (seq d), name = n, login = l, password_encrypted = enc\<rparr>)"
proof -
  from assms(3) have none: "find (\<lambda>r. name r = n) (passwords d) = None"
    by (auto simp: find_None_iff)
  with assms show ?thesis
    by (simp add: add_password_def get_password_def find_append_absent)
qed

lemma insort_key_map_same_key:
  assumes "\<And>y. k (g y) = k y"
  shows "insort_key k (g x) (map g xs) = map g (insort_key k x xs)"
  by (induction xs) (simp_all add: assms)

lemma sort_key_map_same_key:
  assumes "\<And>y. k (g y) = k y"
  shows "sort_key k (map g xs) = map g (sort_key k xs)"
proof (induction xs)
  case Nil
  show ?case by simp
next
  case (Cons x xs)
  have "insort_key k (g x) (map g (sort_key k xs)) = map g (insort_key k x (sort_key k xs))"
    using assms by (rule insort_key_map_same_key)
  with Cons show ?case by simp
qed

lemma filter_absent: "n \<notin> set (map f xs) \<Longrightarrow> filter (\<lambda>r. f r \<noteq> n) xs = xs"
  by (induction xs) auto

subsection \<open>The example store\<close>

lemma demo_names:
  "map name (passwords demo_db) = [str_of ''github'', str_of ''bank'']"
  by (simp add: demo_db_def github_row_def bank_row_def)

lemma str_of_neq_demo:
  "str_of ''github'' \<noteq> str_of ''bank''" "str_of ''gitlab'' \<noteq> str_of ''github''"
  "str_of ''gitlab'' \<noteq> str_of ''bank''"
  by (simp_all add: str_of_def)

lemma demo_encodable:
  "encodable (str_of ''github'')" "encodable (str_of ''bank'')" "encodable (str_of ''gitlab'')"
  "encodable (str_of ''alice'')" "encodable (str_of ''bob'')" "encodable (str_of ''carol'')"
  by (rule encodable_ascii, simp add: str_of_def)+

lemma demo_db_invariants: "unique_names demo_db" "stored_text_encodable demo_db"
proof -
  show "unique_names demo_db"
    by (simp add: unique_names_def demo_names str_of_neq_demo)
  show "stored_text_encodable demo_db"
    by (simp add: stored_text_encodable_def demo_db_def github_row_def bank_row_def demo_encodable)
qed

section \<open>The claims about the tables\<close>

text \<open>
  C1 (as the code has it). The claim says that adding a credential under a name that is
  already stored replaces the record. The code inserts with a plain \<open>INSERT\<close> into a table
  whose \<open>name\<close> column is \<open>UNIQUE\<close>: for every name already present, \<open>add_password\<close> with
  that name and any login and encrypted secret is rejected and leaves the store as it
  was, so that exactly one record with that name exists afterwards and it holds the prior
  login and the prior encrypted secret. The exception is \<open>IntegrityError\<close>, or
  \<open>UnicodeEncodeError\<close> when the new login cannot be bound.
\<close>

theorem add_password_existing_name_rejected:
  assumes "unique_names d" and "stored_text_encodable d" and "r \<in> set (passwords d)"
  shows "add_password (name r) l enc d
           = (Inl (if encodable l then IntegrityError else UnicodeEncodeError), d) \<and>
         filter (\<lambda>x. name x = name r) (passwords (snd (add_password (name r) l enc d))) = [r]"
proof -
  from assms(2,3) have "encodable (name r)"
    by (simp add: stored_text_encodable_def list_all_iff)
  moreover from assms(3) have "name r \<in> set (map name (passwords d))" by simp
  ultimately have res: "add_password (name r) l enc d
      = (Inl (if encodable l then IntegrityError else UnicodeEncodeError), d)"
    by (rule add_password_duplicate)
  from assms(1,3) have "filter (\<lambda>x. name x = name r) (passwords d) = [r]"
    unfolding unique_names_def by (rule filter_unique_row)
  with res show ?thesis by simp
qed

theorem add_password_existing_name_rejected_witness:
  "unique_names demo_db \<and> stored_text_encodable demo_db \<and>
   github_row \<in> set (passwords demo_db) \<and>
   add_password (str_of ''github'') (str_of ''carol'') [9] demo_db = (Inl IntegrityError, demo_db) \<and>
   filter (\<lambda>x. name x = str_of ''github'')
     (passwords (snd (add_password (str_of ''github'') (str_of ''carol'') [9] demo_db))) = [github_row]"
proof -
  have m: "github_row \<in> set (passwords demo_db)"
    by (simp add: demo_db_def)
  have n: "name github_row = str_of ''github''"
    by (simp add: github_row_def)
  have e: "(if encodable (str_of ''carol'') then IntegrityError else UnicodeEncodeError)
      = IntegrityError"
    by (simp add: demo_encodable)
  note t = add_password_existing_name_rejected [OF demo_db_invariants m,
      of "str_of ''carol''" "[9]", unfolded n e]
  from demo_db_invariants m t show ?thesis by blast
qed

text \<open>
  The claim as the spec states it fails on the store of \<open>github\<close> and \<open>bank\<close>: adding
  \<open>github\<close> again with login \<open>carol\<close> raises, and the one record of that name keeps the
  login \<open>alice\<close> and the old blob.
\<close>

theorem add_password_replaces_counterexample:
  "fst (add_password (str_of ''github'') (str_of ''carol'') [9] demo_db) = Inl IntegrityError \<and>
   map (\<lambda>r. (login r, password_encrypted r))
     (filter (\<lambda>x. name x = str_of ''github'')
        (passwords (snd (add_password (str_of ''github'') (str_of ''carol'') [9] demo_db))))
     = [(str_of ''alice'', [1, 2, 3])] \<and>
   str_of ''alice'' \<noteq> str_of ''carol''"
  by (simp add: add_password_def demo_names str_of_neq_demo demo_encodable)
    (simp add: demo_db_def github_row_def bank_row_def str_of_def)

text \<open>
  C7. For every store, \<open>list_passwords\<close> returns the (name, login) pairs of all stored
  records (each as often as it is stored), in ascending order of name; and the listing
  carries nothing of the encrypted blobs: its elements are pairs of two strings, and
  replacing every stored blob by any other leaves the listing as it is.
\<close>

theorem list_passwords_sorted_names_logins:
  "mset (list_passwords d) = mset (map (\<lambda>r. (name r, login r)) (passwords d)) \<and>
   sorted (map fst (list_passwords d)) \<and>
   list_passwords (d\<lparr>passwords := map (\<lambda>r. r\<lparr>password_encrypted := f r\<rparr>) (passwords d)\<rparr>)
     = list_passwords d"
proof (intro conjI)
  show "mset (list_passwords d) = mset (map (\<lambda>r. (name r, login r)) (passwords d))"
    by (simp add: list_passwords_def)
  have "map fst (list_passwords d) = map name (sort_key name (passwords d))"
    by (simp add: list_passwords_def comp_def)
  then show "sorted (map fst (list_passwords d))"
    by simp
  have key: "sort_key name (map (\<lambda>r. r\<lparr>password_encrypted := f r\<rparr>) xs)
      = map (\<lambda>r. r\<lparr>password_encrypted := f r\<rparr>) (sort_key name xs)" for xs
    by (rule sort_key_map_same_key) simp
  show "list_passwords (d\<lparr>passwords := map (\<lambda>r. r\<lparr>password_encrypted := f r\<rparr>) (passwords d)\<rparr>)
      = list_passwords d"
    by (simp add: list_passwords_def key comp_def)
qed

lemma list_passwords_demo:
  "list_passwords demo_db = [(str_of ''bank'', str_of ''bob''), (str_of ''github'', str_of ''alice'')]"
  by (simp add: list_passwords_def demo_db_def github_row_def bank_row_def str_of_def)

text \<open>
  C8 (as the code has it). For every name that is not in the store, \<open>delete_password\<close>
  leaves the store unchanged; it returns normally when the name can be encoded in UTF-8,
  and raises \<open>UnicodeEncodeError\<close> when it cannot (a name with a lone surrogate cannot be
  bound to the statement).
\<close>

theorem delete_password_absent_name:
  assumes "n \<notin> set (map name (passwords d))"
  shows "delete_password n d = (if encodable n then Inr () else Inl UnicodeEncodeError, d)"
proof (cases "encodable n")
  case True
  from assms have "filter (\<lambda>r. name r \<noteq> n) (passwords d) = passwords d"
    by (rule filter_absent)
  with True show ?thesis by (simp add: delete_password_def)
next
  case False
  then show ?thesis by (simp add: delete_password_def)
qed

theorem delete_password_absent_name_witness:
  "str_of ''gitlab'' \<notin> set (map name (passwords demo_db)) \<and>
   encodable (str_of ''gitlab'') \<and>
   delete_password (str_of ''gitlab'') demo_db = (Inr (), demo_db)"
proof -
  have a: "str_of ''gitlab'' \<notin> set (map name (passwords demo_db))"
    by (simp add: demo_names str_of_neq_demo)
  from delete_password_absent_name [OF a] a demo_encodable(3) show ?thesis by simp
qed

text \<open>
  The claim as the spec states it promises that no error is raised for any absent name.
  The name made of the lone surrogate \<open>U+D800\<close> is in no store, and deleting it raises.
\<close>

theorem delete_password_surrogate_counterexample:
  "[0xD800] \<notin> set (map name (passwords demo_db)) \<and>
   delete_password [0xD800] demo_db = (Inl UnicodeEncodeError, demo_db)"
  by (simp add: demo_names str_of_def delete_password_def not_encodable_surrogate)


section \<open>The claims about the master password\<close>

text \<open>
  C9. When table \<open>master\<close> has no row, \<open>verify_master_password\<close> returns \<open>False\<close> for
  every candidate string: it raises nothing (the candidate is not even encoded, so this
  holds for a string that UTF-8 cannot encode too) and never authenticates.
\<close>

theorem verify_without_master_row:
  assumes "get_master_password d = None"
  shows "verify_master_password E q d = Inr False"
  using assms by (simp add: verify_master_password_def)

theorem verify_without_master_row_witness:
  "get_master_password init_database = None \<and>
   verify_master_password demo_env (str_of ''Sunflower42!'') init_database = Inr False \<and>
   verify_master_password demo_env [0xD800] init_database = Inr False"
proof -
  have n: "get_master_password init_database = None"
    by (simp add: get_master_password_def init_database_def)
  from verify_without_master_row [OF n, of demo_env "str_of ''Sunflower42!''"]
    verify_without_master_row [OF n, of demo_env "[0xD800]"] n
  show ?thesis by blast
qed

lemma hash_password_Inr:
  "hash_password E p t = Inr h \<longleftrightarrow> (\<exists>b. str_encode (p @ t) = Inr b \<and> h = hexdigest (sha256 E b))"
  by (auto simp: hash_password_def split: sum.splits)

lemma hash_password_Inl:
  "hash_password E p t = Inl e \<longleftrightarrow> (str_encode (p @ t) = Inl e)"
  by (auto simp: hash_password_def split: sum.splits)

lemma str_encode_append_Inr:
  "str_encode (a @ b) = Inr z \<longleftrightarrow> (\<exists>x y. str_encode a = Inr x \<and> str_encode b = Inr y \<and> z = x @ y)"
  by (auto simp: str_encode_append split: sum.splits)

lemma str_encode_total: "str_encode s = Inl UnicodeEncodeError \<or> (\<exists>b. str_encode s = Inr b)"
  by (cases "str_encode s") (auto dest: str_encode_error)

text \<open>
  C5 (as the code has it). Given a stored master row with hash \<open>h\<close> and salt \<open>t\<close>, where
  \<open>h\<close> is the salted hash of the master password \<open>p\<close>: verification of \<open>p\<close> returns
  \<open>True\<close>. For a candidate \<open>q\<close> other than \<open>p\<close> it recomputes the hash with the stored salt
  and compares: either \<open>q\<close> cannot be encoded in UTF-8 and \<open>UnicodeEncodeError\<close> is raised,
  or the salted encodings of \<open>p\<close> and \<open>q\<close> are two different byte strings and the result is
  \<open>True\<close> exactly when SHA-256 gives both the same digest, so it is \<open>False\<close> unless the two
  collide.
\<close>

theorem verify_master_password_hash_comparison:
  assumes "get_master_password d = Some m"
    and "hash_password E p (salt m) = Inr (password_hash m)"
  shows "verify_master_password E p d = Inr True \<and>
    (\<forall>q. q \<noteq> p \<longrightarrow>
       (str_encode q = Inl UnicodeEncodeError \<and>
        verify_master_password E q d = Inl UnicodeEncodeError)
     \<or> (\<exists>x y. str_encode (p @ salt m) = Inr x \<and> str_encode (q @ salt m) = Inr y \<and> x \<noteq> y \<and>
          verify_master_password E q d = Inr (sha256 E y = sha256 E x)))"
proof (intro conjI allI impI)
  show "verify_master_password E p d = Inr True"
    using assms by (simp add: verify_master_password_def)
next
  fix q assume neq: "q \<noteq> p"
  from assms(2) obtain x where x: "str_encode (p @ salt m) = Inr x"
    and h: "password_hash m = hexdigest (sha256 E x)"
    by (auto simp: hash_password_Inr)
  from x obtain bp bt where bt: "str_encode (salt m) = Inr bt"
    by (auto simp: str_encode_append_Inr)
  show "(str_encode q = Inl UnicodeEncodeError \<and>
        verify_master_password E q d = Inl UnicodeEncodeError)
     \<or> (\<exists>x y. str_encode (p @ salt m) = Inr x \<and> str_encode (q @ salt m) = Inr y \<and> x \<noteq> y \<and>
          verify_master_password E q d = Inr (sha256 E y = sha256 E x))"
  proof (cases "str_encode q")
    case (Inl e)
    then have e: "str_encode q = Inl UnicodeEncodeError"
      by (auto dest: str_encode_error)
    then have "str_encode (q @ salt m) = Inl UnicodeEncodeError"
      by (simp add: str_encode_append)
    then have "hash_password E q (salt m) = Inl UnicodeEncodeError"
      by (simp add: hash_password_Inl)
    with assms(1) have "verify_master_password E q d = Inl UnicodeEncodeError"
      by (simp add: verify_master_password_def)
    with e show ?thesis by blast
  next
    case (Inr bq)
    with bt have y: "str_encode (q @ salt m) = Inr (bq @ bt)"
      by (simp add: str_encode_append)
    have ne: "x \<noteq> bq @ bt"
    proof
      assume "x = bq @ bt"
      with x y have "str_encode (p @ salt m) = Inr x" "str_encode (q @ salt m) = Inr x"
        by simp_all
      then have "p @ salt m = q @ salt m" by (rule str_encode_inj)
      with neq show False by simp
    qed
    from y have "hash_password E q (salt m) = Inr (hexdigest (sha256 E (bq @ bt)))"
      by (simp add: hash_password_def)
    with assms(1) h
    have "verify_master_password E q d
        = Inr (hexdigest (sha256 E (bq @ bt)) = hexdigest (sha256 E x))"
      by (simp add: verify_master_password_def)
    also have "(hexdigest (sha256 E (bq @ bt)) = hexdigest (sha256 E x))
        = (sha256 E (bq @ bt) = sha256 E x)"
      by (auto dest: hexdigest_inj)
    finally show ?thesis using x y ne by blast
  qed
qed


lemma ascii_demo:
  "\<forall>c\<in>set (str_of ''Sunflower42!'' @ str_of ''a1b2''). c < 0x80"
  "\<forall>c\<in>set (str_of ''sunflower'' @ str_of ''a1b2''). c < 0x80"
  "\<forall>c\<in>set (str_of ''sunflower''). c < 0x80"
  by (simp_all add: str_of_def)

lemma demo_master_row:
  "get_master_password demo_locked_db = Some demo_master"
  "salt demo_master = str_of ''a1b2''"
  "hash_password demo_env (str_of ''Sunflower42!'') (salt demo_master) = Inr (password_hash demo_master)"
proof -
  show "get_master_password demo_locked_db = Some demo_master"
    by (simp add: get_master_password_def demo_locked_db_def)
  show s: "salt demo_master = str_of ''a1b2''"
    by (simp add: demo_master_def)
  have "str_encode (str_of ''Sunflower42!'' @ str_of ''a1b2'')
      = Inr (map byte (str_of ''Sunflower42!'' @ str_of ''a1b2''))"
    using ascii_demo(1) by (rule str_encode_ascii)
  then show "hash_password demo_env (str_of ''Sunflower42!'') (salt demo_master)
      = Inr (password_hash demo_master)"
    unfolding s hash_password_def by (simp add: demo_master_def)
qed

theorem verify_master_password_hash_comparison_witness:
  "get_master_password demo_locked_db = Some demo_master \<and>
   hash_password demo_env (str_of ''Sunflower42!'') (salt demo_master)
     = Inr (password_hash demo_master) \<and>
   verify_master_password demo_env (str_of ''Sunflower42!'') demo_locked_db = Inr True \<and>
   str_of ''sunflower'' \<noteq> str_of ''Sunflower42!'' \<and>
   (\<exists>x y. str_encode (str_of ''Sunflower42!'' @ salt demo_master) = Inr x \<and>
          str_encode (str_of ''sunflower'' @ salt demo_master) = Inr y \<and> x \<noteq> y \<and>
          verify_master_password demo_env (str_of ''sunflower'') demo_locked_db
            = Inr (sha256 demo_env y = sha256 demo_env x))"
proof -
  note t = verify_master_password_hash_comparison [OF demo_master_row(1) demo_master_row(3)]
  have ne: "str_of ''sunflower'' \<noteq> str_of ''Sunflower42!''"
    by (simp add: str_of_def)
  have enc: "str_encode (str_of ''sunflower'') \<noteq> Inl UnicodeEncodeError"
    using str_encode_ascii [OF ascii_demo(3)] by simp
  from t have "verify_master_password demo_env (str_of ''Sunflower42!'') demo_locked_db = Inr True"
    by (rule conjunct1)
  moreover from t ne enc
  have "\<exists>x y. str_encode (str_of ''Sunflower42!'' @ salt demo_master) = Inr x \<and>
          str_encode (str_of ''sunflower'' @ salt demo_master) = Inr y \<and> x \<noteq> y \<and>
          verify_master_password demo_env (str_of ''sunflower'') demo_locked_db
            = Inr (sha256 demo_env y = sha256 demo_env x)"
    by blast
  ultimately show ?thesis
    using demo_master_row(1,3) ne by blast
qed

lemma verify_surrogate:
  assumes "get_master_password d = Some m"
  shows "verify_master_password E (0xD800 # q) d = Inl UnicodeEncodeError"
proof -
  have "str_encode ((0xD800 # q) @ salt m) = Inl UnicodeEncodeError"
    by (simp add: utf8_encode_char_def)
  then have "hash_password E (0xD800 # q) (salt m) = Inl UnicodeEncodeError"
    by (simp add: hash_password_def)
  with assms show ?thesis
    by (simp add: verify_master_password_def)
qed

text \<open>
  The claim as the spec states it promises \<open>False\<close> for every string other than the master
  password. The candidate made of the lone surrogate \<open>U+D800\<close> is such a string, and
  verification does not return \<open>False\<close> for it: \<open>(password + salt).encode()\<close> raises.
\<close>

theorem verify_wrong_password_counterexample:
  "get_master_password demo_locked_db = Some demo_master \<and>
   hash_password demo_env (str_of ''Sunflower42!'') (salt demo_master)
     = Inr (password_hash demo_master) \<and>
   [0xD800] \<noteq> str_of ''Sunflower42!'' \<and>
   verify_master_password demo_env [0xD800] demo_locked_db = Inl UnicodeEncodeError \<and>
   verify_master_password demo_env [0xD800] demo_locked_db \<noteq> Inr False"
proof -
  have "verify_master_password demo_env [0xD800] demo_locked_db = Inl UnicodeEncodeError"
    using demo_master_row(1) by (rule verify_surrogate)
  moreover have "[0xD800] \<noteq> str_of ''Sunflower42!''"
    by (simp add: str_of_def)
  ultimately show ?thesis
    using demo_master_row(1,3) by simp
qed

text \<open>
  Nor can \<open>False\<close> be promised for every candidate that can be encoded: a digest has 256
  bits, so whatever \<open>sha256\<close> computes, under every salt two different passwords
  \<open>a...a\<close> have the same salted hash, and each is accepted against the row of the other.
\<close>

lemma sha256_not_injective:
  fixes f :: "nat \<Rightarrow> 256 word"
  shows "\<exists>i j. i \<noteq> j \<and> f i = f j"
proof (rule ccontr)
  assume "\<not> (\<exists>i j. i \<noteq> j \<and> f i = f j)"
  then have "inj f" by (auto simp: inj_on_def)
  moreover have "finite (range f)" by (rule finite_subset [OF subset_UNIV]) simp
  ultimately have "finite (UNIV :: nat set)" by (rule finite_imageD [rotated])
  then show False by simp
qed

lemma str_encode_replicate: "str_encode (replicate i 97) = Inr (replicate i (byte 97))"
proof -
  have "str_encode (replicate i 97) = Inr (map byte (replicate i 97))"
    by (rule str_encode_ascii) simp
  then show ?thesis by simp
qed

lemma wrong_password_accepted_by_collision:
  assumes "str_encode t = Inr bt"
  shows "\<exists>p q h. q \<noteq> p \<and> hash_password E p t = Inr h \<and>
     verify_master_password E q \<lparr>master = Some \<lparr>password_hash = h, salt = t\<rparr>, passwords = ps, seq = n\<rparr>
       = Inr True"
proof -
  obtain i j where ij: "i \<noteq> j"
    and c: "sha256 E (replicate i (byte 97) @ bt) = sha256 E (replicate j (byte 97) @ bt)"
    using sha256_not_injective [of "\<lambda>i. sha256 E (replicate i (byte 97) @ bt)"] by blast
  let ?p = "replicate i (97::nat)" and ?q = "replicate j (97::nat)"
  let ?h = "hexdigest (sha256 E (replicate i (byte 97) @ bt))"
  have hp: "hash_password E ?p t = Inr ?h"
    using assms by (simp add: hash_password_def str_encode_append str_encode_replicate)
  have hq: "hash_password E ?q t = Inr ?h"
    using assms c by (simp add: hash_password_def str_encode_append str_encode_replicate)
  from ij have "?q \<noteq> ?p"
    by (metis length_replicate)
  moreover from hq have "verify_master_password E ?q
      \<lparr>master = Some \<lparr>password_hash = ?h, salt = t\<rparr>, passwords = ps, seq = n\<rparr> = Inr True"
    by (simp add: verify_master_password_def get_master_password_def)
  ultimately show ?thesis using hp by blast
qed

lemma demo_env_simps:
  "fernet_encrypt demo_env = demo_fernet_encrypt"
  "fernet_decrypt demo_env = demo_fernet_decrypt"
  "fernet_key_ok demo_env k = (length k = 2)"
  "py_int demo_env = demo_int"
  "token_hex demo_env n = str_of ''00112233445566778899aabbccddeeff''"
  by (simp_all add: demo_env_def)

lemma demo_fernet_roundtrip:
  "demo_fernet_decrypt k (demo_fernet_encrypt k n b) = Inr b"
  by (simp add: demo_fernet_decrypt_def demo_fernet_encrypt_def)

lemma fernet_correct_demo: "fernet_correct demo_env"
  by (simp add: fernet_correct_def demo_env_simps demo_fernet_roundtrip)

section \<open>The claims about encryption\<close>

text \<open>
  C4 (as the code has it). For every secret string \<open>s\<close> that UTF-8 can encode (a string
  without surrogate code points), encrypting \<open>s\<close> gives a token and decrypting that token
  with the same encryption provider (the same key) returns \<open>s\<close>; Fernet is taken by its
  contract \<open>fernet_correct\<close>.
\<close>

theorem decrypt_encrypt_roundtrip:
  assumes "fernet_correct E" and "str_encode s = Inr b"
  shows "\<exists>token. encrypt E k n s = Inr token \<and> decrypt E k token = Inr s"
proof -
  from assms(2) have enc: "encrypt E k n s = Inr (fernet_encrypt E k n b)"
    by (simp add: encrypt_def)
  from assms(1) have "fernet_decrypt E k (fernet_encrypt E k n b) = Inr b"
    by (simp add: fernet_correct_def)
  then have "decrypt E k (fernet_encrypt E k n b) = bytes_decode b"
    by (simp add: decrypt_def)
  also from assms(2) have "\<dots> = Inr s"
    by (rule str_roundtrip)
  finally show ?thesis using enc by blast
qed

lemma str_encode_pass:
  "str_encode (str_of ''p@ss'') = Inr (map byte (str_of ''p@ss''))"
  by (rule str_encode_ascii) (simp add: str_of_def)

theorem decrypt_encrypt_roundtrip_witness:
  "fernet_correct demo_env \<and>
   str_encode (str_of ''p@ss'') = Inr (map byte (str_of ''p@ss'')) \<and>
   (\<exists>token. encrypt demo_env demo_key 0 (str_of ''p@ss'') = Inr token \<and>
            decrypt demo_env demo_key token = Inr (str_of ''p@ss''))"
  using decrypt_encrypt_roundtrip [OF fernet_correct_demo str_encode_pass, of demo_key 0]
    fernet_correct_demo str_encode_pass
  by blast

text \<open>
  The claim as the spec states it ranges over every secret string. For the string that is
  the lone surrogate \<open>U+D800\<close>, \<open>data.encode()\<close> raises \<open>UnicodeEncodeError\<close> under every
  key, so there is no token to decrypt.
\<close>

theorem encrypt_lone_surrogate_counterexample:
  "\<forall>E k n. encrypt E k n [0xD800] = Inl UnicodeEncodeError \<and>
     (\<forall>token. encrypt E k n [0xD800] \<noteq> Inr token)"
  by (simp add: encrypt_def utf8_encode_char_def)

section \<open>The claims about the generator\<close>

lemma input_line_Cons: "stdin w = l # ls \<Longrightarrow> input_line w = (Inr l, w\<lparr>stdin := ls\<rparr>)"
  by (simp add: input_line_def)

lemma input_line_Nil: "stdin w = [] \<Longrightarrow> input_line w = (Inl EOFError, w)"
  by (simp add: input_line_def)

text \<open>
  C3 (as the code has it). For every integer length below 1 that the user enters, the
  password generator raises no error: \<open>range(length)\<close> is empty, so it prints the empty
  password and returns to the menu, having drawn nothing from the random source.
\<close>

theorem generate_password_length_below_one:
  assumes "stdin w = line # rest" and "line \<noteq> []"
    and "py_int E line = Inr len" and "len < 1"
  shows "generate_password_interactive E w
       = (Inr (), print (New_password []) (w\<lparr>stdin := rest\<rparr>))"
proof -
  from assms(4) have z: "nat len = 0" by simp
  show ?thesis
    unfolding generate_password_interactive_def
    using assms(2,3) z
    by (simp add: and_then_def input_line_Cons [OF assms(1)] say_def)
qed

lemma demo_int_examples:
  "demo_int (str_of ''0'') = Inr 0"
  "demo_int (str_of ''-3'') = Inr (- 3)"
  by (simp_all add: demo_int_def digits_value_def str_of_def)

theorem generate_password_length_below_one_witness:
  "stdin (demo_world [str_of ''-3'', str_of ''0'']) = str_of ''-3'' # [str_of ''0''] \<and>
   str_of ''-3'' \<noteq> [] \<and> py_int demo_env (str_of ''-3'') = Inr (- 3) \<and> (- 3 :: int) < 1 \<and>
   generate_password_interactive demo_env (demo_world [str_of ''-3'', str_of ''0''])
     = (Inr (), print (New_password []) ((demo_world [str_of ''-3'', str_of ''0''])\<lparr>stdin := [str_of ''0'']\<rparr>))"
proof -
  have a: "stdin (demo_world [str_of ''-3'', str_of ''0'']) = str_of ''-3'' # [str_of ''0'']"
    by (simp add: demo_world_def)
  have b: "str_of ''-3'' \<noteq> []" by (simp add: str_of_def)
  have c: "py_int demo_env (str_of ''-3'') = Inr (- 3)"
    by (simp add: demo_env_simps demo_int_examples)
  have d: "(- 3 :: int) < 1" by simp
  from generate_password_length_below_one [OF a b c d] a b c d
  show ?thesis by blast
qed

text \<open>
  The claim as the spec states it fails at the length 0: the generator returns normally
  and what it prints is the empty password.
\<close>

theorem generate_password_zero_counterexample:
  "py_int demo_env (str_of ''0'') = Inr 0 \<and> (0 :: int) < 1 \<and>
   fst (generate_password_interactive demo_env (demo_world [str_of ''0''])) = Inr () \<and>
   stdout (snd (generate_password_interactive demo_env (demo_world [str_of ''0'']))) = [New_password []]"
proof -
  have a: "stdin (demo_world [str_of ''0'']) = str_of ''0'' # []"
    by (simp add: demo_world_def)
  have b: "str_of ''0'' \<noteq> []" by (simp add: str_of_def)
  have c: "py_int demo_env (str_of ''0'') = Inr 0"
    by (simp add: demo_env_simps demo_int_examples)
  have "generate_password_interactive demo_env (demo_world [str_of ''0''])
      = (Inr (), print (New_password []) ((demo_world [str_of ''0''])\<lparr>stdin := []\<rparr>))"
    using a b c by (simp add: generate_password_interactive_def and_then_def input_line_Cons say_def)
  then show ?thesis using c by (simp add: print_def demo_world_def)
qed

section \<open>The claims about authentication\<close>

lemma verify_correct_password:
  assumes "get_master_password d = Some m"
    and "hash_password E p (salt m) = Inr (password_hash m)"
  shows "verify_master_password E p d = Inr True"
  using assms by (simp add: verify_master_password_def)

lemma authenticate_loop_failure:
  assumes "stdin w = p # rest" and "verify_master_password E p (db w) = Inr False"
  shows "authenticate_loop (Suc n) E w
       = authenticate_loop n E (print Wrong_password (w\<lparr>stdin := rest\<rparr>))"
  using assms by (simp add: input_line_def)

lemma authenticate_loop_success:
  assumes "stdin w = p # rest" and "verify_master_password E p (db w) = Inr True"
  shows "authenticate_loop (Suc n) E w = (Inr (), w\<lparr>stdin := rest\<rparr>)"
  using assms by (simp add: input_line_def)

lemma main_after_init:
  "PasswordGenerator_init E w0 = (Inr k, w) \<Longrightarrow> main E w0 = show_menu E k w"
  by (simp add: main_def and_then_def)

lemma main_init_fails:
  "PasswordGenerator_init E w0 = (Inl e, w) \<Longrightarrow> main E w0 = (Inl e, w)"
  by (simp add: main_def and_then_def)

lemma init_authenticate:
  assumes "EncryptionManager_init E w0 = (Inr k, w1)"
    and "setup_master_password E w1 = (Inr (), w)"
  shows "PasswordGenerator_init E w0
       = (case authenticate E w of (Inl e, w') \<Rightarrow> (Inl e, w') | (Inr u, w') \<Rightarrow> (Inr k, w'))"
  using assms by (simp add: PasswordGenerator_init_def and_then_def split: prod.splits sum.splits)

text \<open>
  C6. In every session (the key is loaded and the setup of the master password is over),
  after three consecutive failed verifications of the master password \<open>authenticate\<close>
  raises \<open>SystemExit\<close>, authentication is locked for good, and the program ends with that
  exception, so its exit status is not 0. At the end the database is what it was before
  the attempts, the input behind the three attempts has not been read and nothing but the
  three refusals has been printed: the menu never starts, and no operation on the
  credential store is performed after the third failure.
\<close>

theorem authenticate_locks_after_three_failures:
  assumes "EncryptionManager_init E w0 = (Inr k, w1)"
    and "setup_master_password E w1 = (Inr (), w)"
    and "stdin w = p1 # p2 # p3 # rest"
    and "verify_master_password E p1 (db w) = Inr False"
    and "verify_master_password E p2 (db w) = Inr False"
    and "verify_master_password E p3 (db w) = Inr False"
  shows "authenticate E w = (Inl (SystemExit too_many_attempts), after_three_failures rest w) \<and>
         main E w0 = (Inl (SystemExit too_many_attempts), after_three_failures rest w) \<and>
         exit_status (fst (main E w0)) \<noteq> 0 \<and>
         db (snd (main E w0)) = db w \<and>
         stdin (snd (main E w0)) = rest \<and>
         stdout (snd (main E w0)) = stdout w @ [Wrong_password, Wrong_password, Wrong_password]"
proof -
  let ?w1 = "print Wrong_password (w\<lparr>stdin := p2 # p3 # rest\<rparr>)"
  let ?w2 = "print Wrong_password (?w1\<lparr>stdin := p3 # rest\<rparr>)"
  let ?w3 = "print Wrong_password (?w2\<lparr>stdin := rest\<rparr>)"
  have "authenticate E w = authenticate_loop (Suc (Suc (Suc 0))) E w"
    by (simp add: authenticate_def numeral_3_eq_3)
  also have "\<dots> = authenticate_loop (Suc (Suc 0)) E ?w1"
    using assms(3,4) by (rule authenticate_loop_failure)
  also have "\<dots> = authenticate_loop (Suc 0) E ?w2"
    using assms(5) by (intro authenticate_loop_failure) (simp_all add: print_def)
  also have "\<dots> = authenticate_loop 0 E ?w3"
    using assms(6) by (intro authenticate_loop_failure) (simp_all add: print_def)
  also have "?w3 = after_three_failures rest w"
    by (simp add: after_three_failures_def print_def)
  finally have auth: "authenticate E w
      = (Inl (SystemExit too_many_attempts), after_three_failures rest w)"
    by simp
  with assms(1,2) have "PasswordGenerator_init E w0
      = (Inl (SystemExit too_many_attempts), after_three_failures rest w)"
    by (simp add: init_authenticate)
  then have m: "main E w0 = (Inl (SystemExit too_many_attempts), after_three_failures rest w)"
    by (rule main_init_fails)
  show ?thesis
    unfolding m using auth
    by (simp add: exit_status_def after_three_failures_def print_def)
qed

lemma demo_sha256_differs:
  "demo_sha256 (map byte (str_of ''guess'' @ str_of ''a1b2''))
     \<noteq> demo_sha256 (map byte (str_of ''Sunflower42!'' @ str_of ''a1b2''))"
  by (simp add: demo_sha256_def str_of_def byte_def)

lemma demo_verify_guess:
  "verify_master_password demo_env (str_of ''guess'') demo_locked_db = Inr False"
proof -
  have "\<forall>c\<in>set (str_of ''guess'' @ str_of ''a1b2''). c < 0x80"
    by (simp add: str_of_def)
  then have "str_encode (str_of ''guess'' @ str_of ''a1b2'')
      = Inr (map byte (str_of ''guess'' @ str_of ''a1b2''))"
    by (rule str_encode_ascii)
  then have h: "hash_password demo_env (str_of ''guess'') (str_of ''a1b2'')
      = Inr (hexdigest (demo_sha256 (map byte (str_of ''guess'' @ str_of ''a1b2''))))"
    by (simp add: hash_password_def demo_env_def)
  have "hexdigest (demo_sha256 (map byte (str_of ''guess'' @ str_of ''a1b2'')))
      \<noteq> password_hash demo_master"
    using demo_sha256_differs by (auto simp: demo_master_def demo_env_def dest: hexdigest_inj)
  with h show ?thesis
    by (simp add: verify_master_password_def demo_master_row(1,2))
qed

lemma demo_verify_master:
  "verify_master_password demo_env (str_of ''Sunflower42!'') demo_locked_db = Inr True"
  using demo_master_row(1,3) by (rule verify_correct_password)

lemma demo_init:
  "EncryptionManager_init demo_env (demo_world ls) = (Inr demo_key, demo_world ls)"
  "setup_master_password demo_env (demo_world ls) = (Inr (), demo_world ls)"
  "db (demo_world ls) = demo_locked_db"
  "stdin (demo_world ls) = ls"
  "stdout (demo_world ls) = []"
proof -
  show "EncryptionManager_init demo_env (demo_world ls) = (Inr demo_key, demo_world ls)"
    by (simp add: EncryptionManager_init_def demo_world_def demo_env_simps demo_key_def)
  show "setup_master_password demo_env (demo_world ls) = (Inr (), demo_world ls)"
    by (simp add: setup_master_password_def demo_world_def demo_master_row(1))
qed (simp_all add: demo_world_def)

theorem authenticate_locks_after_three_failures_witness:
  "EncryptionManager_init demo_env
     (demo_world [str_of ''guess'', str_of ''guess'', str_of ''guess'', str_of ''3''])
     = (Inr demo_key,
        demo_world [str_of ''guess'', str_of ''guess'', str_of ''guess'', str_of ''3'']) \<and>
   setup_master_password demo_env
     (demo_world [str_of ''guess'', str_of ''guess'', str_of ''guess'', str_of ''3''])
     = (Inr (), demo_world [str_of ''guess'', str_of ''guess'', str_of ''guess'', str_of ''3'']) \<and>
   verify_master_password demo_env (str_of ''guess'') demo_locked_db = Inr False \<and>
   main demo_env (demo_world [str_of ''guess'', str_of ''guess'', str_of ''guess'', str_of ''3''])
     = (Inl (SystemExit too_many_attempts),
        after_three_failures [str_of ''3'']
          (demo_world [str_of ''guess'', str_of ''guess'', str_of ''guess'', str_of ''3''])) \<and>
   exit_status (fst (main demo_env
     (demo_world [str_of ''guess'', str_of ''guess'', str_of ''guess'', str_of ''3'']))) \<noteq> 0 \<and>
   db (snd (main demo_env
     (demo_world [str_of ''guess'', str_of ''guess'', str_of ''guess'', str_of ''3'']))) = demo_locked_db \<and>
   stdin (snd (main demo_env
     (demo_world [str_of ''guess'', str_of ''guess'', str_of ''guess'', str_of ''3'']))) = [str_of ''3''] \<and>
   stdout (snd (main demo_env
     (demo_world [str_of ''guess'', str_of ''guess'', str_of ''guess'', str_of ''3''])))
     = [Wrong_password, Wrong_password, Wrong_password]"
proof -
  let ?w = "demo_world [str_of ''guess'', str_of ''guess'', str_of ''guess'', str_of ''3'']"
  have i: "stdin ?w = str_of ''guess'' # str_of ''guess'' # str_of ''guess'' # [str_of ''3'']"
    by (simp add: demo_init)
  have v: "verify_master_password demo_env (str_of ''guess'') (db ?w) = Inr False"
    by (simp add: demo_init demo_verify_guess)
  note t = authenticate_locks_after_three_failures [OF demo_init(1) demo_init(2) i v v v,
      unfolded demo_init(3,5) append_Nil]
  have t': "main demo_env ?w
        = (Inl (SystemExit too_many_attempts), after_three_failures [str_of ''3''] ?w) \<and>
      exit_status (fst (main demo_env ?w)) \<noteq> 0 \<and>
      db (snd (main demo_env ?w)) = demo_locked_db \<and>
      stdin (snd (main demo_env ?w)) = [str_of ''3''] \<and>
      stdout (snd (main demo_env ?w)) = [Wrong_password, Wrong_password, Wrong_password]"
    using t by blast
  from t' demo_init(1,2) demo_verify_guess show ?thesis
    by blast
qed

text \<open>
  Authentication locks in no other way: \<open>SystemExit\<close> comes out of the loop only after as many
  refused attempts as it has rounds.
\<close>

lemma verify_master_password_error:
  "verify_master_password E p d = Inl e \<Longrightarrow> e = UnicodeEncodeError"
  by (auto simp: verify_master_password_def hash_password_def
      split: option.splits sum.splits dest: str_encode_error)

lemma authenticate_loop_SystemExit:
  "authenticate_loop n E w = (Inl (SystemExit msg), w') \<Longrightarrow>
     \<exists>ps rest. length ps = n \<and> stdin w = ps @ rest \<and> stdin w' = rest \<and>
       (\<forall>p\<in>set ps. verify_master_password E p (db w) = Inr False)"
proof (induction n arbitrary: w)
  case 0
  then show ?case by simp
next
  case (Suc n)
  from Suc.prems obtain p rest where in1: "stdin w = p # rest"
    by (cases "stdin w") (auto simp: input_line_def)
  then have il: "input_line w = (Inr p, w\<lparr>stdin := rest\<rparr>)"
    by (simp add: input_line_def)
  from Suc.prems il have v: "verify_master_password E p (db w) = Inr False"
    by (auto split: sum.splits if_splits dest: verify_master_password_error)
  with Suc.prems il
  have "authenticate_loop n E (print Wrong_password (w\<lparr>stdin := rest\<rparr>)) = (Inl (SystemExit msg), w')"
    by simp
  from Suc.IH [OF this] obtain ps rest' where
    "length ps = n" "rest = ps @ rest'" "stdin w' = rest'"
    "\<forall>q\<in>set ps. verify_master_password E q (db w) = Inr False"
    by (auto simp: print_def)
  with in1 v have "length (p # ps) = Suc n \<and> stdin w = (p # ps) @ rest' \<and> stdin w' = rest' \<and>
       (\<forall>q\<in>set (p # ps). verify_master_password E q (db w) = Inr False)"
    by simp
  then show ?case by blast
qed

section \<open>The claims about the retrieval of a credential\<close>

lemma decrypt_Inl:
  "decrypt E k t = Inl e \<longleftrightarrow>
     fernet_decrypt E k t = Inl e \<or> (\<exists>b. fernet_decrypt E k t = Inr b \<and> bytes_decode b = Inl e)"
  by (auto simp: decrypt_def split: sum.splits)

lemma get_password_cli_found:
  assumes "stdin w = nm # rest" and "get_password nm (db w) = Inr (Some row)"
  shows "get_password_cli E k w =
     (case decrypt E k (password_encrypted row) of
        Inl e \<Rightarrow> (Inl e, w\<lparr>stdin := rest\<rparr>)
      | Inr password \<Rightarrow>
          (Inr (), print (Password_line password) (print (Login_line (login row)) (w\<lparr>stdin := rest\<rparr>))))"
  using assms by (simp add: get_password_cli_def and_then_def input_line_def)

lemma get_password_cli_absent:
  assumes "stdin w = nm # rest" and "get_password nm (db w) = Inr None"
  shows "get_password_cli E k w = (Inr (), print Not_found (w\<lparr>stdin := rest\<rparr>))"
  using assms by (simp add: get_password_cli_def and_then_def input_line_def say_def)

lemma get_password_cli_unbindable:
  assumes "stdin w = nm # rest" and "\<not> encodable nm"
  shows "get_password_cli E k w = (Inl UnicodeEncodeError, w\<lparr>stdin := rest\<rparr>)"
  using assms by (simp add: get_password_cli_def and_then_def input_line_def get_password_def)

lemma show_menu_choice_2:
  assumes "stdin w = str_of ''2'' # rest"
  shows "show_menu E k w =
     (case get_password_cli E k (print Menu (w\<lparr>stdin := rest\<rparr>)) of
        (Inl e, w2) \<Rightarrow> (Inl e, w2)
      | (Inr u, w2) \<Rightarrow> show_menu E k w2)"
proof -
  have il: "input_line (print Menu w) = (Inr (str_of ''2''), print Menu (w\<lparr>stdin := rest\<rparr>))"
    using assms by (simp add: input_line_def print_def)
  have ne: "str_of ''2'' \<noteq> str_of ''1''"
    by (simp add: str_of_def)
  show ?thesis
    by (subst show_menu.simps) (simp add: il ne)
qed

text \<open>
  C2 (as the code has it). For every stored credential whose blob does not decrypt (Fernet
  refuses the token as malformed, truncated or made under another key, or the plaintext
  is no UTF-8), the retrieve operation of the controller prints no message: the exception
  leaves \<open>get_password\<close>, the menu loop and the program, which ends on it with exit status
  1 having printed nothing after the menu. The message \<open>not found\<close> is printed only for a
  name that is not stored (\<open>get_password_cli_absent\<close>).
\<close>

theorem decrypt_failure_leaves_the_program:
  assumes "PasswordGenerator_init E w0 = (Inr k, w)"
    and "stdin w = str_of ''2'' # nm # rest"
    and "get_password nm (db w) = Inr (Some row)"
    and "decrypt E k (password_encrypted row) = Inl e"
  shows "get_password_cli E k (print Menu (w\<lparr>stdin := nm # rest\<rparr>))
           = (Inl e, print Menu (w\<lparr>stdin := rest\<rparr>)) \<and>
         main E w0 = (Inl e, print Menu (w\<lparr>stdin := rest\<rparr>)) \<and>
         exit_status (fst (main E w0)) = 1 \<and>
         stdout (snd (main E w0)) = stdout w @ [Menu]"
proof -
  let ?w1 = "print Menu (w\<lparr>stdin := nm # rest\<rparr>)"
  have s1: "stdin ?w1 = nm # rest" and d1: "get_password nm (db ?w1) = Inr (Some row)"
    using assms(3) by (simp_all add: print_def)
  have g: "get_password_cli E k ?w1 = (Inl e, ?w1\<lparr>stdin := rest\<rparr>)"
    using get_password_cli_found [OF s1 d1, of E k] assms(4) by simp
  also have "?w1\<lparr>stdin := rest\<rparr> = print Menu (w\<lparr>stdin := rest\<rparr>)"
    by (simp add: print_def)
  finally have g': "get_password_cli E k ?w1 = (Inl e, print Menu (w\<lparr>stdin := rest\<rparr>))" .
  have "main E w0 = show_menu E k w"
    using assms(1) by (rule main_after_init)
  also have "\<dots> = (Inl e, print Menu (w\<lparr>stdin := rest\<rparr>))"
    using show_menu_choice_2 [OF assms(2), of E k] g' by simp
  finally have m: "main E w0 = (Inl e, print Menu (w\<lparr>stdin := rest\<rparr>))" .
  show ?thesis
    unfolding m using g' by (simp add: exit_status_def print_def)
qed

lemma demo_init_authenticated:
  "PasswordGenerator_init demo_env (demo_world (str_of ''Sunflower42!'' # ls))
     = (Inr demo_key, demo_world ls)"
proof -
  let ?w = "demo_world (str_of ''Sunflower42!'' # ls)"
  have "authenticate demo_env ?w = authenticate_loop (Suc (Suc (Suc 0))) demo_env ?w"
    by (simp add: authenticate_def numeral_3_eq_3)
  also have "\<dots> = (Inr (), ?w\<lparr>stdin := ls\<rparr>)"
  proof (rule authenticate_loop_success)
    show "stdin ?w = str_of ''Sunflower42!'' # ls"
      by (simp add: demo_init)
    show "verify_master_password demo_env (str_of ''Sunflower42!'') (db ?w) = Inr True"
      by (simp add: demo_init demo_verify_master)
  qed
  also have "?w\<lparr>stdin := ls\<rparr> = demo_world ls"
    by (simp add: demo_world_def)
  finally show ?thesis
    by (simp add: init_authenticate [OF demo_init(1) demo_init(2)])
qed

lemma demo_github_unreadable:
  "get_password (str_of ''github'') demo_locked_db = Inr (Some github_row)"
  "decrypt demo_env demo_key (password_encrypted github_row) = Inl InvalidToken"
  by (simp_all add: get_password_def demo_locked_db_def demo_db_def github_row_def
      decrypt_def demo_env_simps demo_fernet_decrypt_def demo_encodable)

theorem decrypt_failure_leaves_the_program_witness:
  "PasswordGenerator_init demo_env
     (demo_world [str_of ''Sunflower42!'', str_of ''2'', str_of ''github'', str_of ''0''])
     = (Inr demo_key, demo_world [str_of ''2'', str_of ''github'', str_of ''0'']) \<and>
   get_password (str_of ''github'') demo_locked_db = Inr (Some github_row) \<and>
   decrypt demo_env demo_key (password_encrypted github_row) = Inl InvalidToken \<and>
   main demo_env
     (demo_world [str_of ''Sunflower42!'', str_of ''2'', str_of ''github'', str_of ''0''])
     = (Inl InvalidToken, print Menu (demo_world [str_of ''0''])) \<and>
   exit_status (fst (main demo_env
     (demo_world [str_of ''Sunflower42!'', str_of ''2'', str_of ''github'', str_of ''0'']))) = 1"
proof -
  let ?w = "demo_world [str_of ''2'', str_of ''github'', str_of ''0'']"
  have i: "stdin ?w = str_of ''2'' # str_of ''github'' # [str_of ''0'']"
    by (simp add: demo_init)
  have g: "get_password (str_of ''github'') (db ?w) = Inr (Some github_row)"
    by (simp add: demo_init demo_github_unreadable)
  have u: "?w\<lparr>stdin := [str_of ''0'']\<rparr> = demo_world [str_of ''0'']"
    by (simp add: demo_world_def)
  note t = decrypt_failure_leaves_the_program [OF demo_init_authenticated i g
      demo_github_unreadable(2), unfolded u]
  from t demo_init_authenticated [of "[str_of ''2'', str_of ''github'', str_of ''0'']"]
    demo_github_unreadable
  show ?thesis by blast
qed

text \<open>
  The claim as the spec states it fails on the store whose record \<open>github\<close> holds the blob
  \<open>01 02 03\<close>, which is no Fernet token: after the master password, the choice \<open>2\<close> and
  the name \<open>github\<close> the program ends with \<open>InvalidToken\<close>, and all it has printed is the
  menu.
\<close>

theorem decrypt_failure_message_counterexample:
  "get_password (str_of ''github'')
     (db (demo_world [str_of ''Sunflower42!'', str_of ''2'', str_of ''github'', str_of ''0'']))
     = Inr (Some github_row) \<and>
   fernet_decrypt demo_env demo_key (password_encrypted github_row) = Inl InvalidToken \<and>
   fst (main demo_env
     (demo_world [str_of ''Sunflower42!'', str_of ''2'', str_of ''github'', str_of ''0'']))
     = Inl InvalidToken \<and>
   stdout (snd (main demo_env
     (demo_world [str_of ''Sunflower42!'', str_of ''2'', str_of ''github'', str_of ''0''])))
     = [Menu]"
proof -
  let ?start = "demo_world [str_of ''Sunflower42!'', str_of ''2'', str_of ''github'', str_of ''0'']"
  let ?w = "demo_world [str_of ''2'', str_of ''github'', str_of ''0'']"
  let ?w1 = "print Menu (?w\<lparr>stdin := [str_of ''github'', str_of ''0'']\<rparr>)"
  have "main demo_env ?start = show_menu demo_env demo_key ?w"
    using demo_init_authenticated by (rule main_after_init)
  also have "\<dots> = (case get_password_cli demo_env demo_key ?w1 of
        (Inl e, w2) \<Rightarrow> (Inl e, w2) | (Inr u, w2) \<Rightarrow> show_menu demo_env demo_key w2)"
    by (rule show_menu_choice_2) (simp add: demo_init)
  also have "get_password_cli demo_env demo_key ?w1
      = (Inl InvalidToken, ?w1\<lparr>stdin := [str_of ''0'']\<rparr>)"
    using get_password_cli_found [of ?w1 "str_of ''github''" "[str_of ''0'']" github_row
        demo_env demo_key]
    by (simp add: print_def demo_init demo_github_unreadable)
  finally have m: "main demo_env ?start = (Inl InvalidToken, ?w1\<lparr>stdin := [str_of ''0'']\<rparr>)"
    by simp
  have f: "fernet_decrypt demo_env demo_key (password_encrypted github_row) = Inl InvalidToken"
    by (simp add: demo_env_simps demo_fernet_decrypt_def github_row_def)
  show ?thesis
    unfolding m using f by (simp add: demo_init demo_github_unreadable print_def)
qed

section \<open>The claims about the first-run setup\<close>

lemma setup_loop_step:
  assumes "stdin w = p1 # p2 # rest"
  shows "setup_master_password_loop E w =
     (if p1 \<noteq> [] \<and> p1 = p2 then
        (case set_master_password E p1 (w\<lparr>stdin := rest\<rparr>) of
           (Inl e, w3) \<Rightarrow> (Inl e, w3)
         | (Inr u, w3) \<Rightarrow> (Inr (), print Master_saved w3))
      else setup_master_password_loop E (print Mismatch (w\<lparr>stdin := rest\<rparr>)))"
  by (subst setup_master_password_loop.simps) (simp add: input_line_def assms)

lemma setup_loop_eof:
  assumes "stdin w = [] \<or> (\<exists>p1. stdin w = [p1])"
  shows "\<exists>w'. setup_master_password_loop E w = (Inl EOFError, w') \<and> db w' = db w"
  using assms
  by (subst setup_master_password_loop.simps) (auto simp: input_line_def)

lemma set_master_password_result:
  "set_master_password E p w = (r, w') \<Longrightarrow>
     stdin w' = stdin w \<and>
     (case r of
        Inl e \<Rightarrow> db w' = db w
      | Inr u \<Rightarrow> (\<exists>m. get_master_password (db w') = Some m \<and>
                      hash_password E p (salt m) = Inr (password_hash m)))"
  by (auto simp: set_master_password_def Let_def get_master_password_def split: sum.splits)

lemma setup_loop_outcome:
  assumes "setup_master_password_loop E w = (r, w')"
    and "get_master_password (db w) = None"
  shows "case r of
           Inl e \<Rightarrow> get_master_password (db w') = None
         | Inr u \<Rightarrow> (\<exists>p m pre post. p \<noteq> [] \<and> stdin w = pre @ p # p # post \<and>
                        get_master_password (db w') = Some m \<and>
                        hash_password E p (salt m) = Inr (password_hash m))"
  using assms
proof (induction "length (stdin w)" arbitrary: w rule: less_induct)
  case less
  show ?case
  proof (cases "stdin w")
    case Nil
    with setup_loop_eof [of w E] less.prems show ?thesis by auto
  next
    case (Cons p1 ps)
    show ?thesis
    proof (cases ps)
      case Nil
      with Cons setup_loop_eof [of w E] less.prems show ?thesis by auto
    next
      case (Cons p2 rest)
      with \<open>stdin w = p1 # ps\<close> have in2: "stdin w = p1 # p2 # rest" by simp
      note step = setup_loop_step [OF in2, of E]
      show ?thesis
      proof (cases "p1 \<noteq> [] \<and> p1 = p2")
        case True
        obtain r3 w3 where s: "set_master_password E p1 (w\<lparr>stdin := rest\<rparr>) = (r3, w3)"
          by (cases "set_master_password E p1 (w\<lparr>stdin := rest\<rparr>)")
        note res = set_master_password_result [OF s]
        have "setup_master_password_loop E w =
            (case (r3, w3) of (Inl e, w3) \<Rightarrow> (Inl e, w3)
             | (Inr u, w3) \<Rightarrow> (Inr (), print Master_saved w3))"
          by (simp only: step if_P [OF True] s)
        with less.prems(1) have run: "(r, w') =
            (case (r3, w3) of (Inl e, w3) \<Rightarrow> (Inl e, w3)
             | (Inr u, w3) \<Rightarrow> (Inr (), print Master_saved w3))"
          by simp
        show ?thesis
        proof (cases r3)
          case (Inl e)
          with run have "r = Inl e" "w' = w3" by simp_all
          with res Inl less.prems(2) show ?thesis by simp
        next
          case (Inr u)
          with run have r: "r = Inr ()" "w' = print Master_saved w3"
            by simp_all
          from res Inr obtain m where m: "get_master_password (db w3) = Some m"
            "hash_password E p1 (salt m) = Inr (password_hash m)"
            by auto
          from m(1) r(2) have m': "get_master_password (db w') = Some m"
            by (simp add: print_def get_master_password_def)
          from True have "p1 \<noteq> []" and "p2 = p1" by blast+
          with in2 have pre: "stdin w = [] @ p1 # p1 # rest" by simp
          note \<open>p1 \<noteq> []\<close>
          with pre m' m(2) have "\<exists>p m pre post. p \<noteq> [] \<and> stdin w = pre @ p # p # post \<and>
              get_master_password (db w') = Some m \<and>
              hash_password E p (salt m) = Inr (password_hash m)"
            by blast
          with r(1) show ?thesis by simp
        qed
      next
        case False
        let ?w = "print Mismatch (w\<lparr>stdin := rest\<rparr>)"
        have "setup_master_password_loop E w = setup_master_password_loop E ?w"
          by (simp only: step if_not_P [OF False])
        with less.prems(1) have run: "setup_master_password_loop E ?w = (r, w')"
          by simp
        have "length (stdin ?w) < length (stdin w)"
          using in2 by simp
        moreover have "get_master_password (db ?w) = None"
          using less.prems(2) by (simp add: print_def)
        ultimately have ih: "case r of
           Inl e \<Rightarrow> get_master_password (db w') = None
         | Inr u \<Rightarrow> (\<exists>p m pre post. p \<noteq> [] \<and> stdin ?w = pre @ p # p # post \<and>
                        get_master_password (db w') = Some m \<and>
                        hash_password E p (salt m) = Inr (password_hash m))"
          using run by (intro less.hyps)
        show ?thesis
        proof (cases r)
          case (Inl e)
          with ih show ?thesis by simp
        next
          case (Inr u)
          with ih obtain p m pre post where f: "p \<noteq> []" "rest = pre @ p # p # post"
            "get_master_password (db w') = Some m"
            "hash_password E p (salt m) = Inr (password_hash m)"
            by auto
          from f(2) in2 have "stdin w = (p1 # p2 # pre) @ p # p # post" by simp
          with f have "\<exists>p m pre post. p \<noteq> [] \<and> stdin w = pre @ p # p # post \<and>
              get_master_password (db w') = Some m \<and>
              hash_password E p (salt m) = Inr (password_hash m)"
            by blast
          with Inr show ?thesis by simp
        qed
      qed
    qed
  qed
qed

lemma setup_first_pair:
  assumes "get_master_password (db w) = None" and "stdin w = p1 # p2 # rest"
  shows "setup_master_password E w =
     (if p1 \<noteq> [] \<and> p1 = p2 then
        (case set_master_password E p1 (print First_run (w\<lparr>stdin := rest\<rparr>)) of
           (Inl e, w3) \<Rightarrow> (Inl e, w3)
         | (Inr u, w3) \<Rightarrow> (Inr (), print Master_saved w3))
      else setup_master_password_loop E (print Mismatch (print First_run (w\<lparr>stdin := rest\<rparr>))))"
proof -
  have s: "stdin (print First_run w) = p1 # p2 # rest"
    using assms(2) by simp
  have e: "(print First_run w)\<lparr>stdin := rest\<rparr> = print First_run (w\<lparr>stdin := rest\<rparr>)"
    by (simp add: print_def)
  from assms(1) have "setup_master_password E w = setup_master_password_loop E (print First_run w)"
    by (simp add: setup_master_password_def)
  also note setup_loop_step [OF s, of E]
  finally show ?thesis unfolding e .
qed

text \<open>
  C10. During the first-run setup (table \<open>master\<close> has no row) a master password is
  accepted and persisted only when the first entry is not empty and the two entries are
  equal. When the setup returns, the stored row is the salted hash of a password that is
  not empty and was entered twice in a row; when it ends with an exception, nothing is
  stored. A pair of entries whose first is empty (two empty entries in particular) or
  whose entries differ is refused: the mismatch is printed and the loop asks again with
  the rest of the input. A pair of equal entries that are not empty goes to
  \<open>set_master_password\<close>.
\<close>

theorem setup_master_password_accepts_nonempty_match_only:
  assumes "get_master_password (db w) = None" and "setup_master_password E w = (r, w')"
  shows "(case r of
            Inl e \<Rightarrow> get_master_password (db w') = None
          | Inr u \<Rightarrow> (\<exists>p m pre post. p \<noteq> [] \<and> stdin w = pre @ p # p # post \<and>
                         get_master_password (db w') = Some m \<and>
                         hash_password E p (salt m) = Inr (password_hash m))) \<and>
         (\<forall>p1 p2 rest. stdin w = p1 # p2 # rest \<and> (p1 = [] \<or> p1 \<noteq> p2) \<longrightarrow>
            setup_master_password E w
              = setup_master_password_loop E (print Mismatch (print First_run (w\<lparr>stdin := rest\<rparr>)))) \<and>
         (\<forall>p rest. stdin w = p # p # rest \<and> p \<noteq> [] \<longrightarrow>
            setup_master_password E w
              = (case set_master_password E p (print First_run (w\<lparr>stdin := rest\<rparr>)) of
                   (Inl e, w3) \<Rightarrow> (Inl e, w3)
                 | (Inr u, w3) \<Rightarrow> (Inr (), print Master_saved w3)))"
proof (intro conjI allI impI)
  let ?w = "print First_run w"
  from assms have run: "setup_master_password_loop E ?w = (r, w')"
    by (simp add: setup_master_password_def)
  have "get_master_password (db ?w) = None"
    using assms(1) by (simp add: print_def)
  with run have "case r of
            Inl e \<Rightarrow> get_master_password (db w') = None
          | Inr u \<Rightarrow> (\<exists>p m pre post. p \<noteq> [] \<and> stdin ?w = pre @ p # p # post \<and>
                         get_master_password (db w') = Some m \<and>
                         hash_password E p (salt m) = Inr (password_hash m))"
    by (rule setup_loop_outcome)
  then show "case r of
            Inl e \<Rightarrow> get_master_password (db w') = None
          | Inr u \<Rightarrow> (\<exists>p m pre post. p \<noteq> [] \<and> stdin w = pre @ p # p # post \<and>
                         get_master_password (db w') = Some m \<and>
                         hash_password E p (salt m) = Inr (password_hash m))"
    by (cases r) simp_all
next
  fix p1 p2 rest
  assume a: "stdin w = p1 # p2 # rest \<and> (p1 = [] \<or> p1 \<noteq> p2)"
  then have s: "stdin w = p1 # p2 # rest" and n: "\<not> (p1 \<noteq> [] \<and> p1 = p2)" by blast+
  show "setup_master_password E w
      = setup_master_password_loop E (print Mismatch (print First_run (w\<lparr>stdin := rest\<rparr>)))"
    by (simp only: setup_first_pair [OF assms(1) s] if_not_P [OF n])
next
  fix p rest
  assume a: "stdin w = p # p # rest \<and> p \<noteq> []"
  then have s: "stdin w = p # p # rest" and y: "p \<noteq> [] \<and> p = p" by blast+
  show "setup_master_password E w
      = (case set_master_password E p (print First_run (w\<lparr>stdin := rest\<rparr>)) of
           (Inl e, w3) \<Rightarrow> (Inl e, w3)
         | (Inr u, w3) \<Rightarrow> (Inr (), print Master_saved w3))"
    by (simp only: setup_first_pair [OF assms(1) s] if_P [OF y])
qed

lemma hash_password_ascii:
  "\<forall>c\<in>set (p @ t). c < 0x80 \<Longrightarrow>
     hash_password E p t = Inr (hexdigest (sha256 E (map byte (p @ t))))"
  by (simp only: hash_password_def str_encode_ascii sum.case)

lemma demo_fresh:
  "get_master_password (db (demo_fresh_world ls)) = None"
  "stdin (demo_fresh_world ls) = ls"
  by (simp_all add: demo_fresh_world_def get_master_password_def init_database_def)

lemma demo_fresh_setup:
  "fst (setup_master_password demo_env
     (demo_fresh_world [[], [], str_of ''Sunflower42!'', str_of ''Sunflower42!''])) = Inr ()"
proof -
  let ?w = "demo_fresh_world [[], [], str_of ''Sunflower42!'', str_of ''Sunflower42!'']"
  let ?w1 = "print Mismatch (print First_run (?w\<lparr>stdin := [str_of ''Sunflower42!'', str_of ''Sunflower42!'']\<rparr>))"
  have ne: "str_of ''Sunflower42!'' \<noteq> []"
    by (simp add: str_of_def)
  have "setup_master_password demo_env ?w = setup_master_password_loop demo_env ?w1"
    using setup_first_pair [OF demo_fresh(1), of _ "[]" "[]" _ demo_env] by (simp add: demo_fresh)
  also have "\<dots> = (case set_master_password demo_env (str_of ''Sunflower42!'') (?w1\<lparr>stdin := []\<rparr>) of
           (Inl e, w3) \<Rightarrow> (Inl e, w3)
         | (Inr u, w3) \<Rightarrow> (Inr (), print Master_saved w3))"
    using setup_loop_step [of ?w1 "str_of ''Sunflower42!''" "str_of ''Sunflower42!''" "[]" demo_env] ne
    by (simp add: demo_fresh)
  also have "fst \<dots> = Inr ()"
  proof -
    have "\<forall>c\<in>set (str_of ''Sunflower42!'' @ str_of ''00112233445566778899aabbccddeeff''). c < 0x80"
      by (simp add: str_of_def)
    then have "hash_password demo_env (str_of ''Sunflower42!'')
        (str_of ''00112233445566778899aabbccddeeff'')
      = Inr (hexdigest (sha256 demo_env (map byte (str_of ''Sunflower42!''
           @ str_of ''00112233445566778899aabbccddeeff''))))"
      by (rule hash_password_ascii)
    then show ?thesis
      by (simp add: set_master_password_def Let_def demo_env_simps)
  qed
  finally show ?thesis .
qed

theorem setup_master_password_accepts_nonempty_match_only_witness:
  "get_master_password
     (db (demo_fresh_world [[], [], str_of ''Sunflower42!'', str_of ''Sunflower42!''])) = None \<and>
   fst (setup_master_password demo_env
     (demo_fresh_world [[], [], str_of ''Sunflower42!'', str_of ''Sunflower42!''])) = Inr () \<and>
   (\<exists>p m pre post. p \<noteq> [] \<and>
      stdin (demo_fresh_world [[], [], str_of ''Sunflower42!'', str_of ''Sunflower42!''])
        = pre @ p # p # post \<and>
      get_master_password (db (snd (setup_master_password demo_env
        (demo_fresh_world [[], [], str_of ''Sunflower42!'', str_of ''Sunflower42!''])))) = Some m \<and>
      hash_password demo_env p (salt m) = Inr (password_hash m)) \<and>
   stdin (demo_fresh_world [[], [], str_of ''Sunflower42!'', str_of ''Sunflower42!''])
     = [] # [] # [str_of ''Sunflower42!'', str_of ''Sunflower42!''] \<and>
   setup_master_password demo_env
     (demo_fresh_world [[], [], str_of ''Sunflower42!'', str_of ''Sunflower42!''])
     = setup_master_password_loop demo_env (print Mismatch (print First_run
         ((demo_fresh_world [[], [], str_of ''Sunflower42!'', str_of ''Sunflower42!''])
            \<lparr>stdin := [str_of ''Sunflower42!'', str_of ''Sunflower42!'']\<rparr>)))"
proof -
  let ?w = "demo_fresh_world [[], [], str_of ''Sunflower42!'', str_of ''Sunflower42!'']"
  have h2: "setup_master_password demo_env ?w
      = (fst (setup_master_password demo_env ?w), snd (setup_master_password demo_env ?w))"
    by simp
  note t = setup_master_password_accepts_nonempty_match_only [OF demo_fresh(1) h2]
  have i: "stdin ?w = [] # [] # [str_of ''Sunflower42!'', str_of ''Sunflower42!'']"
    by (simp add: demo_fresh)
  from t have "case fst (setup_master_password demo_env ?w) of
       Inl e \<Rightarrow> get_master_password (db (snd (setup_master_password demo_env ?w))) = None
     | Inr u \<Rightarrow> (\<exists>p m pre post. p \<noteq> [] \<and> stdin ?w = pre @ p # p # post \<and>
          get_master_password (db (snd (setup_master_password demo_env ?w))) = Some m \<and>
          hash_password demo_env p (salt m) = Inr (password_hash m))"
    by (rule conjunct1)
  then have a: "\<exists>p m pre post. p \<noteq> [] \<and> stdin ?w = pre @ p # p # post \<and>
          get_master_password (db (snd (setup_master_password demo_env ?w))) = Some m \<and>
          hash_password demo_env p (salt m) = Inr (password_hash m)"
    by (simp only: demo_fresh_setup sum.case)
  from t i have b: "setup_master_password demo_env ?w
     = setup_master_password_loop demo_env (print Mismatch (print First_run
         (?w\<lparr>stdin := [str_of ''Sunflower42!'', str_of ''Sunflower42!'']\<rparr>)))"
    by blast
  from demo_fresh(1) demo_fresh_setup a i b show ?thesis
    by blast
qed

end
